theory Spec2Isabelle
  imports Main "HOL-Library.Word"
begin

section \<open>HouseWiz device manager: data model\<close>

text \<open>
  The embedding follows \<^verbatim>\<open>housewiz_device.c\<close>. Conventions:
  \<^item> \<^verbatim>\<open>time_t\<close> and the \<^verbatim>\<open>int\<close> fields \<^verbatim>\<open>status\<close> and \<^verbatim>\<open>commanded\<close> are \<open>int\<close>
    (they are only assigned, compared and, for times, added to small constants);
  \<^item> the module's static variables are the fields of the record \<open>registry\<close>; every
    function takes the registry and returns the updated one;
  \<^item> \<^verbatim>\<open>time(0)\<close> is the parameter \<open>now\<close>;
  \<^item> each \<^verbatim>\<open>sendto\<close> is logged in the field \<open>sent\<close> and each \<^verbatim>\<open>houselog_event\<close> in
    the field \<open>events\<close>; the text of a datagram and of an event is kept structured
    (format and arguments) instead of being printed into a buffer;
  \<^item> debug prints and \<^verbatim>\<open>houselog_trace\<close> diagnostics change no state and are left out;
  \<^item> a port is held as its number (\<^verbatim>\<open>htons\<close> is the identity here).
\<close>

record sockaddr_in =
  sin_family :: "16 word"
  sin_port :: "16 word"
  sin_addr :: "32 word"

record DeviceMap =
  name :: string
  macaddress :: string
  description :: string
  ipaddress :: sockaddr_in
  detected :: int
  status :: int
  commanded :: int
  pending :: int
  deadline :: int
  last_sense :: int

record NetworkMap =
  net_name :: string
  net_ip :: string
  net_mac :: string

datatype payload =
    Registration int string string
  | SetPilot int bool

type_synonym packet = "sockaddr_in \<times> payload"

datatype arg = S string | I int

datatype event = Event (category: string) (object: string) (action: string)
                       (format: string) (args: "arg list")

record registry =
  Devices :: "DeviceMap list"
  DevicesCount :: nat
  DevicesSpace :: nat
  DeviceListChanged :: bool
  Networks :: "NetworkMap list"
  LastRetry :: int
  LastSense :: int
  sent :: "packet list"
  events :: "event list"

definition WIZ_ID_OFFSET :: int where
  "WIZ_ID_OFFSET = 12000"

definition WizDevicePort :: "16 word" where
  "WizDevicePort = 38899"

definition WizStatusPort :: "16 word" where
  "WizStatusPort = 38900"

definition AF_INET :: "16 word" where
  "AF_INET = 2"

definition INADDR_BROADCAST :: "32 word" where
  "INADDR_BROADCAST = 0xffffffff"

text \<open>\<^verbatim>\<open>WizBroadcast\<close> as \<^verbatim>\<open>housewiz_device_socket\<close> leaves it.\<close>

definition WizBroadcast :: sockaddr_in where
  "WizBroadcast = \<lparr>sin_family = AF_INET, sin_port = WizDevicePort, sin_addr = INADDR_BROADCAST\<rparr>"

text \<open>A record of the array as \<^verbatim>\<open>calloc\<close> returns it.\<close>

definition zero_addr :: sockaddr_in where
  "zero_addr = \<lparr>sin_family = 0, sin_port = 0, sin_addr = 0\<rparr>"

definition zero_device :: DeviceMap where
  "zero_device = \<lparr>name = [], macaddress = [], description = [], ipaddress = zero_addr,
     detected = 0, status = 0, commanded = 0, pending = 0, deadline = 0, last_sense = 0\<rparr>"

text \<open>
  The registry is well formed when the live records fit the allocated array, as
  \<^verbatim>\<open>housewiz_device_refresh\<close> establishes it.
\<close>

definition wf_registry :: "registry \<Rightarrow> bool" where
  "wf_registry s \<longleftrightarrow> DevicesCount s \<le> DevicesSpace s \<and> DevicesSpace s = length (Devices s)"

subsection \<open>C library helpers\<close>

text \<open>\<^verbatim>\<open>safecpy (dest, src, limit)\<close>: at most \<open>limit - 1\<close> characters are kept.\<close>

definition safecpy :: "string \<Rightarrow> nat \<Rightarrow> string" where
  "safecpy src limit = take (limit - 1) src"

definition tolower :: "char \<Rightarrow> char" where
  "tolower c = (let n = (of_char c :: nat) in if 65 \<le> n \<and> n \<le> 90 then char_of (n + 32) else c)"

text \<open>\<^verbatim>\<open>strcasecmp\<close>: only the sign of the result is specified, so the model returns -1, 0 or 1.\<close>

fun strcasecmp :: "string \<Rightarrow> string \<Rightarrow> int" where
  "strcasecmp [] [] = 0"
| "strcasecmp [] (b # bs) = -1"
| "strcasecmp (a # as) [] = 1"
| "strcasecmp (a # as) (b # bs) =
     (if tolower a = tolower b then strcasecmp as bs
      else if (of_char (tolower a) :: nat) < of_char (tolower b) then -1 else 1)"

text \<open>The decimal digits that \<^verbatim>\<open>%d\<close> prints for a number that is not negative.\<close>

fun decimal :: "nat \<Rightarrow> string" where
  "decimal n = (if n < 10 then [char_of (48 + n)]
                else decimal (n div 10) @ [char_of (48 + n mod 10)])"

declare decimal.simps [simp del]

section \<open>Sending\<close>

definition housewiz_device_send :: "sockaddr_in \<Rightarrow> payload \<Rightarrow> registry \<Rightarrow> registry" where
  "housewiz_device_send a d s = s\<lparr>sent := sent s @ [(a, d)]\<rparr>"

text \<open>The datagrams of \<^verbatim>\<open>housewiz_device_sense\<close>: one registration for each known interface.\<close>

definition sense_packets :: "NetworkMap list \<Rightarrow> sockaddr_in \<Rightarrow> int \<Rightarrow> packet list" where
  "sense_packets nets a ident = map (\<lambda>n. (a, Registration ident (net_ip n) (net_mac n))) nets"

definition housewiz_device_sense :: "sockaddr_in \<Rightarrow> int \<Rightarrow> registry \<Rightarrow> registry" where
  "housewiz_device_sense a ident s = s\<lparr>sent := sent s @ sense_packets (Networks s) a ident\<rparr>"

text \<open>
  The datagram of \<^verbatim>\<open>housewiz_device_control (device, state)\<close> for the record \<open>d\<close> at
  index \<open>device\<close>: it goes to the endpoint stored in the record.
\<close>

definition control_packet :: "nat \<Rightarrow> DeviceMap \<Rightarrow> int \<Rightarrow> packet" where
  "control_packet device d state = (ipaddress d, SetPilot (WIZ_ID_OFFSET + int device) (state \<noteq> 0))"

definition namedstate :: "int \<Rightarrow> string" where
  "namedstate state = (if state \<noteq> 0 then ''on'' else ''off'')"

section \<open>Accessors and commands\<close>

text \<open>
  The accessors and \<^verbatim>\<open>housewiz_device_set\<close> read \<^verbatim>\<open>Devices[point]\<close> after the test
  \<^verbatim>\<open>point < 0 || point > DevicesCount\<close>. The result \<open>None\<close> stands for an access
  beyond the allocated array (undefined in C); \<open>Some\<close> holds what the function returns.
\<close>

definition device_at :: "int \<Rightarrow> registry \<Rightarrow> DeviceMap option option" where
  "device_at point s =
     (if point < 0 \<or> point > int (DevicesCount s) then Some None
      else if nat point < length (Devices s) then Some (Some (Devices s ! nat point))
      else None)"

definition housewiz_device_count :: "registry \<Rightarrow> nat" where
  "housewiz_device_count s = DevicesCount s"

definition housewiz_device_changed :: "registry \<Rightarrow> int \<times> registry" where
  "housewiz_device_changed s =
     (if DeviceListChanged s then (1, s\<lparr>DeviceListChanged := False\<rparr>) else (0, s))"

definition housewiz_device_name :: "int \<Rightarrow> registry \<Rightarrow> string option option" where
  "housewiz_device_name point s = map_option (map_option name) (device_at point s)"

definition housewiz_device_commanded :: "int \<Rightarrow> registry \<Rightarrow> int option" where
  "housewiz_device_commanded point s =
     map_option (\<lambda>r. case r of None \<Rightarrow> 0 | Some d \<Rightarrow> commanded d) (device_at point s)"

definition housewiz_device_deadline :: "int \<Rightarrow> registry \<Rightarrow> int option" where
  "housewiz_device_deadline point s =
     map_option (\<lambda>r. case r of None \<Rightarrow> 0 | Some d \<Rightarrow> deadline d) (device_at point s)"

definition housewiz_device_failure :: "int \<Rightarrow> registry \<Rightarrow> string option option" where
  "housewiz_device_failure point s =
     map_option (\<lambda>r. case r of None \<Rightarrow> None
                      | Some d \<Rightarrow> if detected d = 0 then Some ''silent'' else None)
                (device_at point s)"

definition housewiz_device_get :: "int \<Rightarrow> registry \<Rightarrow> int option" where
  "housewiz_device_get point s =
     map_option (\<lambda>r. case r of None \<Rightarrow> 0 | Some d \<Rightarrow> status d) (device_at point s)"

definition housewiz_device_set ::
  "int \<Rightarrow> int \<Rightarrow> int \<Rightarrow> int \<Rightarrow> registry \<Rightarrow> (int \<times> registry) option" where
  "housewiz_device_set now device state pulse s =
     (if device < 0 \<or> device > int (DevicesCount s) then Some (0, s)
      else if length (Devices s) \<le> nat device then None
      else
        let i = nat device;
            d = Devices s ! i;
            d1 = (if pulse > 0 then d\<lparr>deadline := now + pulse\<rparr> else d\<lparr>deadline := 0\<rparr>);
            ev = (if pulse > 0
                  then Event ''DEVICE'' (name d) ''SET'' ''%s FOR %d SECONDS'' [S (namedstate state), I pulse]
                  else Event ''DEVICE'' (name d) ''SET'' ''%s'' [S (namedstate state)]);
            d2 = d1\<lparr>commanded := state, pending := now + 5\<rparr>;
            out = (if detected d2 \<noteq> 0 then [control_packet i d2 state] else [])
        in Some (1, s\<lparr>Devices := (Devices s)[i := d2],
                      sent := sent s @ out,
                      events := events s @ [ev]\<rparr>))"

definition housewiz_device_reset :: "int \<Rightarrow> DeviceMap \<Rightarrow> DeviceMap" where
  "housewiz_device_reset st d = d\<lparr>commanded := st, status := st, pending := 0, deadline := 0\<rparr>"

section \<open>The periodic sweep\<close>

text \<open>
  The body of the loop of \<^verbatim>\<open>housewiz_device_periodic\<close> for the record at index \<open>i\<close>,
  one definition for each \<^verbatim>\<open>if\<close> statement of the source, in its order: liveness
  probe, silence, end of pulse, retry or timeout. Each returns the new record with the
  datagrams sent and the events emitted.
\<close>

definition periodic_probe ::
  "int \<Rightarrow> nat \<Rightarrow> NetworkMap list \<Rightarrow> DeviceMap \<Rightarrow> DeviceMap \<times> packet list" where
  "periodic_probe now i nets d =
     (if now \<ge> last_sense d + 35
      then (d\<lparr>last_sense := now\<rparr>, sense_packets nets (ipaddress d) (WIZ_ID_OFFSET + int i))
      else (d, []))"

definition periodic_silence :: "int \<Rightarrow> DeviceMap \<Rightarrow> DeviceMap \<times> event list" where
  "periodic_silence now d =
     (if detected d > 0 \<and> detected d < now - 100
      then ((housewiz_device_reset 0 d)\<lparr>detected := 0\<rparr>,
            [Event ''DEVICE'' (name d) ''SILENT'' ''MAC ADDRESS %s'' [S (macaddress d)]])
      else (d, []))"

definition periodic_pulse :: "int \<Rightarrow> DeviceMap \<Rightarrow> DeviceMap \<times> event list" where
  "periodic_pulse now d =
     (if deadline d > 0 \<and> now \<ge> deadline d
      then (d\<lparr>commanded := 0, pending := now + 5, deadline := 0\<rparr>,
            [Event ''DEVICE'' (name d) ''RESET'' ''END OF PULSE'' []])
      else (d, []))"

definition periodic_mismatch ::
  "int \<Rightarrow> nat \<Rightarrow> DeviceMap \<Rightarrow> DeviceMap \<times> packet list \<times> event list" where
  "periodic_mismatch now i d =
     (if status d \<noteq> commanded d then
        (if pending d > now then
           (if detected d \<noteq> 0
            then (d, [control_packet i d (commanded d)],
                  [Event ''DEVICE'' (name d) ''RETRY'' (namedstate (commanded d)) []])
            else (d, [], []))
         else
           (housewiz_device_reset (status d) d, [],
            if pending d \<noteq> 0 then [Event ''DEVICE'' (name d) ''TIMEOUT'' [] []] else []))
      else (d, [], []))"

definition periodic_device ::
  "int \<Rightarrow> nat \<Rightarrow> NetworkMap list \<Rightarrow> DeviceMap \<Rightarrow> DeviceMap \<times> packet list \<times> event list" where
  "periodic_device now i nets d0 =
     (case periodic_probe now i nets d0 of (d1, p1) \<Rightarrow>
      case periodic_silence now d1 of (d2, e2) \<Rightarrow>
      case periodic_pulse now d2 of (d3, e3) \<Rightarrow>
      case periodic_mismatch now i d3 of (d4, p4, e4) \<Rightarrow>
        (d4, p1 @ p4, e2 @ e3 @ e4))"

definition periodic_step :: "int \<Rightarrow> nat \<Rightarrow> registry \<Rightarrow> registry" where
  "periodic_step now i s =
     (case periodic_device now i (Networks s) (Devices s ! i) of
        (d, ps, es) \<Rightarrow> s\<lparr>Devices := (Devices s)[i := d], sent := sent s @ ps, events := events s @ es\<rparr>)"

fun periodic_loop :: "int \<Rightarrow> nat list \<Rightarrow> registry \<Rightarrow> registry" where
  "periodic_loop now [] s = s"
| "periodic_loop now (i # is) s = periodic_loop now is (periodic_step now i s)"

text \<open>
  \<^verbatim>\<open>housewiz_device_periodic (now)\<close>. The interface table that
  \<^verbatim>\<open>housewiz_device_enumerate\<close> rebuilds from the operating system is the input \<open>ifs\<close>.
\<close>

definition housewiz_device_periodic :: "int \<Rightarrow> NetworkMap list \<Rightarrow> registry \<Rightarrow> registry" where
  "housewiz_device_periodic now ifs s0 =
     (let s1 = (if now \<ge> LastSense s0 + 60
                then (housewiz_device_sense WizBroadcast 1 (s0\<lparr>Networks := ifs\<rparr>))\<lparr>LastSense := now\<rparr>
                else s0)
      in if now < LastRetry s1 + 5 then s1
         else periodic_loop now [0..<DevicesCount s1] (s1\<lparr>LastRetry := now\<rparr>))"

text \<open>A run of the scheduler: one call for each time of the list, in order.\<close>

fun periodic_run :: "(int \<Rightarrow> NetworkMap list) \<Rightarrow> int list \<Rightarrow> registry \<Rightarrow> registry" where
  "periodic_run env [] s = s"
| "periodic_run env (t # ts) s = periodic_run env ts (housewiz_device_periodic t (env t) s)"

text \<open>The times of a run at which the sweep gate (\<^verbatim>\<open>LastRetry\<close>) lets the loop run.\<close>

fun sweeps :: "int \<Rightarrow> int list \<Rightarrow> int list" where
  "sweeps l [] = []"
| "sweeps l (t # ts) = (if t < l + 5 then sweeps l ts else t # sweeps t ts)"


section \<open>Reloading the configuration\<close>

text \<open>
  The configuration module is outside this file; what \<^verbatim>\<open>housewiz_device_refresh\<close> asks
  of it is the input: the size of the configuration, the array \<^verbatim>\<open>.wiz.devices\<close>
  (\<open>None\<close> when \<^verbatim>\<open>housewiz_config_array\<close> fails), and for each index the object
  (\<open>None\<close> when \<^verbatim>\<open>housewiz_config_object\<close> returns no object) with its three strings
  (\<open>None\<close> for a null pointer). \<open>alloc_ok\<close> tells whether \<^verbatim>\<open>calloc\<close> succeeds.
\<close>

record config_device =
  cfg_name :: "string option"
  cfg_address :: "string option"
  cfg_description :: "string option"

record config =
  config_size :: int
  config_devices :: "config_device option list option"

definition clear_device :: "DeviceMap \<Rightarrow> DeviceMap" where
  "clear_device d = d\<lparr>name := [], macaddress := [], description := [],
                      deadline := 0, pending := 0, detected := 0\<rparr>"

definition load_device :: "config_device option \<Rightarrow> DeviceMap \<Rightarrow> DeviceMap" where
  "load_device e d =
     (case e of
        None \<Rightarrow> d
      | Some c \<Rightarrow>
          let d1 = (case cfg_name c of Some n \<Rightarrow> d\<lparr>name := safecpy n 32\<rparr> | None \<Rightarrow> d);
              d2 = (case cfg_address c of Some m \<Rightarrow> d1\<lparr>macaddress := safecpy m 16\<rparr> | None \<Rightarrow> d1);
              d3 = (case cfg_description c of Some t \<Rightarrow> d2\<lparr>description := safecpy t 256\<rparr> | None \<Rightarrow> d2)
          in housewiz_device_reset (status d3) d3)"

fun refresh_loop :: "config_device option list \<Rightarrow> nat \<Rightarrow> DeviceMap list \<Rightarrow> DeviceMap list" where
  "refresh_loop [] i devs = devs"
| "refresh_loop (e # es) i devs = refresh_loop es (Suc i) (devs[i := load_device e (devs ! i)])"

text \<open>
  \<^verbatim>\<open>housewiz_device_refresh\<close> returns the error text, or \<open>None\<close> for the null pointer. The
  records are loaded into the array that \<^verbatim>\<open>calloc\<close> has just returned.
\<close>

definition housewiz_device_refresh ::
  "string \<Rightarrow> config \<Rightarrow> bool \<Rightarrow> registry \<Rightarrow> string option \<times> registry" where
  "housewiz_device_refresh reason cfg alloc_ok s0 =
     (let s1 = s0\<lparr>events := events s0 @ [Event ''CONFIG'' ''wiz'' ''ACTIVATING'' ''%s'' [S reason]]\<rparr>;
          s2 = s1\<lparr>Devices := map clear_device (take (DevicesCount s1) (Devices s1))
                              @ drop (DevicesCount s1) (Devices s1),
                  DevicesCount := 0\<rparr>
      in case (if config_size cfg > 0 then config_devices cfg else Some []) of
           None \<Rightarrow> (Some ''cannot find devices array'', s2)
         | Some entries \<Rightarrow>
             let s3 = s2\<lparr>DevicesCount := length entries, DevicesSpace := length entries + 32\<rparr>
             in if \<not> alloc_ok then (Some ''no more memory'', s3\<lparr>Devices := []\<rparr>)
                else (None, s3\<lparr>Devices := refresh_loop entries 0
                                            (replicate (DevicesSpace s3) zero_device)\<rparr>))"

section \<open>Inbound reports\<close>

text \<open>
  A received datagram after \<^verbatim>\<open>recvfrom\<close> and \<^verbatim>\<open>echttp_json_parse\<close>: the sender, the
  size returned, whether the text parsed, and the three JSON items the handler looks
  up (\<open>None\<close> when \<^verbatim>\<open>echttp_json_search\<close> finds nothing).
\<close>

datatype jvalue = JString string | JBool bool | JOther

record datagram =
  sender :: sockaddr_in
  size_received :: int
  parsed :: bool
  json_method :: "jvalue option"
  params_mac :: "jvalue option"
  params_state :: "jvalue option"

fun mac_scan :: "string \<Rightarrow> DeviceMap list \<Rightarrow> nat \<Rightarrow> int" where
  "mac_scan m [] i = -1"
| "mac_scan m (d # ds) i = (if strcasecmp m (macaddress d) = 0 then int i else mac_scan m ds (Suc i))"

definition housewiz_device_mac_search :: "string \<Rightarrow> registry \<Rightarrow> int" where
  "housewiz_device_mac_search m s = mac_scan m (take (DevicesCount s) (Devices s)) 0"

text \<open>
  The first part of \<^verbatim>\<open>housewiz_device_receive\<close>: the checks that drop a datagram. The
  result is the MAC address, the flag \<^verbatim>\<open>manual\<close> and the reported state; for
  \<^verbatim>\<open>firstBeat\<close> the source leaves \<^verbatim>\<open>status\<close> unset until it assigns 1 to it.
\<close>

definition receive_parse :: "datagram \<Rightarrow> (string \<times> bool \<times> int) option" where
  "receive_parse dg =
     (if size_received dg \<le> 0 then None
      else if \<not> parsed dg then None
      else case json_method dg of
        Some (JString m) \<Rightarrow>
          if m \<noteq> ''firstBeat'' \<and> m \<noteq> ''syncPilot'' then None
          else (case params_mac dg of
                  Some (JString mac) \<Rightarrow>
                    if m = ''firstBeat'' then Some (mac, True, 1)
                    else (case params_state dg of
                            Some (JBool b) \<Rightarrow> Some (mac, False, if b then 1 else 0)
                          | _ \<Rightarrow> None)
                | _ \<Rightarrow> None)
      | _ \<Rightarrow> None)"

text \<open>
  The second part: the record is looked up, and created when there is room. (The
  source tests \<^verbatim>\<open>DevicesCount >= DevicesSpace\<close> once more inside the branch; that test
  cannot succeed there.)
\<close>

definition receive_resolve :: "int \<Rightarrow> string \<Rightarrow> registry \<Rightarrow> int \<times> registry" where
  "receive_resolve now mac s =
     (let device = housewiz_device_mac_search mac s
      in if device < 0 \<and> DevicesCount s < DevicesSpace s then
           let i = DevicesCount s;
               d = (Devices s ! i)\<lparr>name := take 31 (''wiz'' @ decimal (i + 1)),
                                   macaddress := take 15 mac,
                                   description := ''autogenerated''\<rparr>;
               ev = Event ''DEVICE'' (name d) ''ADDED'' ''MAC ADDRESS %s'' [S mac]
           in (int i, s\<lparr>DeviceListChanged := True, DevicesCount := i + 1,
                         Devices := (Devices s)[i := d\<lparr>detected := now, last_sense := 0\<rparr>],
                         events := events s @ [ev]\<rparr>)
         else (device, s))"

text \<open>
  The third part, for the record at index \<open>i\<close>, one definition for each statement of
  the source: the detection stamp, the manual operation with its acknowledgement, the
  change of state, and at the end the endpoint.
\<close>

definition receive_detect :: "int \<Rightarrow> string \<Rightarrow> DeviceMap \<Rightarrow> DeviceMap \<times> event list" where
  "receive_detect now mac d =
     (d\<lparr>detected := now\<rparr>,
      if detected d = 0
      then [Event ''DEVICE'' (name d) ''DETECTED'' ''MAC ADDRESS %s'' [S mac]] else [])"

definition receive_manual :: "bool \<Rightarrow> nat \<Rightarrow> DeviceMap \<Rightarrow> DeviceMap \<times> packet list" where
  "receive_manual manual i d =
     (if manual
      then (d\<lparr>commanded := 1, pending := 0\<rparr>, [control_packet i (d\<lparr>commanded := 1, pending := 0\<rparr>) 1])
      else (d, []))"

definition receive_change :: "bool \<Rightarrow> int \<Rightarrow> DeviceMap \<Rightarrow> DeviceMap \<times> event list" where
  "receive_change manual st d =
     (if status d \<noteq> st then
        (if pending d \<noteq> 0 then
           (if st = commanded d
            then (d\<lparr>pending := 0, status := st\<rparr>,
                  [Event ''DEVICE'' (name d) ''CONFIRMED'' ''FROM %s TO %s''
                         [S (namedstate (status d)), S (namedstate st)]])
            else (d\<lparr>status := st\<rparr>, []))
         else
           (d\<lparr>commanded := st, status := st\<rparr>,
            [Event ''DEVICE'' (name d) (if manual then ''OPERATED'' else ''CHANGED'')
                   ''FROM %s TO %s'' [S (namedstate (status d)), S (namedstate st)]]))
      else (d, []))"

definition receive_device ::
  "int \<Rightarrow> sockaddr_in \<Rightarrow> string \<Rightarrow> bool \<Rightarrow> int \<Rightarrow> nat \<Rightarrow> DeviceMap
     \<Rightarrow> DeviceMap \<times> packet list \<times> event list" where
  "receive_device now addr mac manual st0 i d0 =
     (case receive_detect now mac d0 of (d1, e1) \<Rightarrow>
      case receive_manual manual i d1 of (d2, p2) \<Rightarrow>
      case receive_change manual (if manual then 1 else st0) d2 of (d3, e3) \<Rightarrow>
        (d3\<lparr>ipaddress := addr\<lparr>sin_port := WizDevicePort\<rparr>\<rparr>, p2, e1 @ e3))"

definition housewiz_device_receive :: "int \<Rightarrow> datagram \<Rightarrow> registry \<Rightarrow> registry" where
  "housewiz_device_receive now dg s =
     (case receive_parse dg of
        None \<Rightarrow> s
      | Some (mac, manual, st) \<Rightarrow>
          (case receive_resolve now mac s of
             (device, s1) \<Rightarrow>
               if device \<ge> 0 then
                 (case receive_device now (sender dg) mac manual st (nat device) (Devices s1 ! nat device) of
                    (d, ps, es) \<Rightarrow>
                      s1\<lparr>Devices := (Devices s1)[nat device := d],
                         sent := sent s1 @ ps, events := events s1 @ es\<rparr>)
               else s1))"

text \<open>A run of inbound datagrams, each with the time at which it is handled.\<close>

fun receive_run :: "(int \<times> datagram) list \<Rightarrow> registry \<Rightarrow> registry" where
  "receive_run [] s = s"
| "receive_run ((t, dg) # rest) s = receive_run rest (housewiz_device_receive t dg s)"

section \<open>Notions used in the statements and proofs\<close>

text \<open>The registry after \<^verbatim>\<open>housewiz_device_set\<close>, whatever the call returns.\<close>

definition after_set :: "int \<Rightarrow> int \<Rightarrow> int \<Rightarrow> int \<Rightarrow> registry \<Rightarrow> registry" where
  "after_set now device state pulse s =
     (case housewiz_device_set now device state pulse s of Some (r, s') \<Rightarrow> s' | None \<Rightarrow> s)"


definition pulse_inv :: "int \<Rightarrow> DeviceMap \<Rightarrow> bool" where
  "pulse_inv t0 d \<longleftrightarrow>
     status d = 1 \<and> commanded d = 1 \<and> deadline d = t0 + 10 \<and>
     (detected d \<le> 0 \<or> t0 - 91 \<le> detected d)"


text \<open>Concrete registries for the examples: one configured lamp, on or off.\<close>

definition lamp :: DeviceMap where
  "lamp = \<lparr>name = ''lamp1'', macaddress = ''a8bb50112233'', description = ''desk'',
     ipaddress = \<lparr>sin_family = AF_INET, sin_port = WizDevicePort, sin_addr = 0xC0A80132\<rparr>,
     detected = 100, status = 1, commanded = 1, pending = 0, deadline = 0, last_sense = 100\<rparr>"

definition lamp_off :: DeviceMap where
  "lamp_off = lamp\<lparr>status := 0, commanded := 0\<rparr>"

definition one_device :: "DeviceMap \<Rightarrow> int \<Rightarrow> registry" where
  "one_device d l = \<lparr>Devices = d # replicate 32 zero_device, DevicesCount = 1, DevicesSpace = 33,
     DeviceListChanged = False, Networks = [], LastRetry = l, LastSense = 100,
     sent = [], events = []\<rparr>"

definition no_interfaces :: "int \<Rightarrow> NetworkMap list" where
  "no_interfaces t = []"

text \<open>
  The actions of the events emitted between two registries, the note of a first
  detection, the note of a record created for a MAC address not found, and the
  datagrams that carry a MAC address equal to \<open>m\<close> up to case.
\<close>

definition emitted :: "registry \<Rightarrow> registry \<Rightarrow> string list" where
  "emitted s s' = map action (drop (length (events s)) (events s'))"

definition detected_note :: "DeviceMap \<Rightarrow> string list" where
  "detected_note d = (if detected d = 0 then [''DETECTED''] else [])"

definition created_note :: "string \<Rightarrow> registry \<Rightarrow> string list" where
  "created_note mac s = (if housewiz_device_mac_search mac s < 0 then [''ADDED''] else [])"

definition carries :: "string \<Rightarrow> datagram \<Rightarrow> bool" where
  "carries m dg \<longleftrightarrow>
     (case params_mac dg of Some (JString m') \<Rightarrow> strcasecmp m m' = 0 | _ \<Rightarrow> False)"

text \<open>
  The registry before \<^verbatim>\<open>housewiz_device_initialize\<close>, two configurations, the
  registries loaded from them, and two datagrams of a bulb at 192.168.1.50.
\<close>

definition startup :: registry where
  "startup = \<lparr>Devices = [], DevicesCount = 0, DevicesSpace = 0, DeviceListChanged = False,
     Networks = [], LastRetry = 0, LastSense = 0, sent = [], events = []\<rparr>"

definition no_config :: config where
  "no_config = \<lparr>config_size = 0, config_devices = None\<rparr>"

definition lamp_config :: config where
  "lamp_config = \<lparr>config_size = 1, config_devices =
     Some [Some \<lparr>cfg_name = Some ''lamp1'', cfg_address = Some ''a8bb50112233'',
                 cfg_description = Some ''desk''\<rparr>]\<rparr>"

definition empty_registry :: registry where
  "empty_registry = snd (housewiz_device_refresh ''ON STARTUP'' no_config True startup)"

definition lamp_registry :: registry where
  "lamp_registry = snd (housewiz_device_refresh ''ON STARTUP'' lamp_config True startup)"

definition bulb_addr :: sockaddr_in where
  "bulb_addr = \<lparr>sin_family = AF_INET, sin_port = 49152, sin_addr = 0xC0A80132\<rparr>"

definition sync_report :: "string \<Rightarrow> bool \<Rightarrow> datagram" where
  "sync_report mac b = \<lparr>sender = bulb_addr, size_received = 80, parsed = True,
     json_method = Some (JString ''syncPilot''), params_mac = Some (JString mac),
     params_state = Some (JBool b)\<rparr>"

definition first_beat :: "string \<Rightarrow> datagram" where
  "first_beat mac = \<lparr>sender = bulb_addr, size_received = 60, parsed = True,
     json_method = Some (JString ''firstBeat''), params_mac = Some (JString mac),
     params_state = None\<rparr>"

text \<open>
  The operations of the module as values, and a run of them: a command, an inbound
  datagram, a call of the scheduler and a reload, each with the inputs it reads from
  outside.
\<close>

datatype operation =
    Command int int int int
  | Report int datagram
  | Tick int "NetworkMap list"
  | Reload string config bool

fun apply_operation :: "operation \<Rightarrow> registry \<Rightarrow> registry" where
  "apply_operation (Command now device state pulse) s = after_set now device state pulse s"
| "apply_operation (Report now dg) s = housewiz_device_receive now dg s"
| "apply_operation (Tick now ifs) s = housewiz_device_periodic now ifs s"
| "apply_operation (Reload reason cfg alloc_ok) s = snd (housewiz_device_refresh reason cfg alloc_ok s)"

fun run_operations :: "operation list \<Rightarrow> registry \<Rightarrow> registry" where
  "run_operations [] s = s"
| "run_operations (x # xs) s = run_operations xs (apply_operation x s)"

text \<open>
  The rule "a pulse deadline implies commanded on", for one record and for every
  record of the array, and the operations that keep it in a registry: all but a
  command \<open>off\<close> with a pulse, and a \<^verbatim>\<open>syncPilot\<close> report \<open>off\<close> for a record that is
  on, has no command pending and has a deadline. \<open>kept_along\<close> checks each operation
  of a run in the registry it is applied to.
\<close>

definition pulse_ok :: "DeviceMap \<Rightarrow> bool" where
  "pulse_ok d \<longleftrightarrow> (0 < deadline d \<longrightarrow> commanded d \<noteq> 0)"

definition pulse_rule :: "registry \<Rightarrow> bool" where
  "pulse_rule s \<longleftrightarrow> list_all pulse_ok (Devices s)"

fun keeps_pulse_rule :: "operation \<Rightarrow> registry \<Rightarrow> bool" where
  "keeps_pulse_rule (Command now device state pulse) s = (state \<noteq> 0 \<or> pulse \<le> 0)"
| "keeps_pulse_rule (Report now dg) s =
     (case receive_parse dg of
        None \<Rightarrow> True
      | Some (mac, manual, st) \<Rightarrow>
          st \<noteq> 0 \<or>
          (case receive_resolve now mac s of
             (device, s1) \<Rightarrow>
               device < 0 \<or> status (Devices s1 ! nat device) = 0 \<or>
               pending (Devices s1 ! nat device) \<noteq> 0 \<or> deadline (Devices s1 ! nat device) \<le> 0))"
| "keeps_pulse_rule (Tick now ifs) s = True"
| "keeps_pulse_rule (Reload reason cfg alloc_ok) s = True"

fun kept_along :: "operation list \<Rightarrow> registry \<Rightarrow> bool" where
  "kept_along [] s = True"
| "kept_along (x # xs) s = (keeps_pulse_rule x s \<and> kept_along xs (apply_operation x s))"

text \<open>
  The identifier a datagram carries (for a device, \<^verbatim>\<open>WIZ_ID_OFFSET\<close> plus its index),
  and the operations that keep the array of records: all but a reload, unless it stops
  at "cannot find devices array", before the allocation.
\<close>

fun payload_id :: "payload \<Rightarrow> int" where
  "payload_id (Registration ident ip mac) = ident"
| "payload_id (SetPilot ident state) = ident"

fun keeps_array :: "operation \<Rightarrow> bool" where
  "keeps_array (Reload reason cfg alloc_ok) = (0 < config_size cfg \<and> config_devices cfg = None)"
| "keeps_array x = True"

text \<open>
  For the record at index \<open>i\<close>: its endpoint has the command port, and the datagrams
  of a list that carry its identifier go to the command port.
\<close>

definition endpoint_inv :: "nat \<Rightarrow> registry \<Rightarrow> bool" where
  "endpoint_inv i s \<longleftrightarrow>
     wf_registry s \<and> i < length (Devices s) \<and> sin_port (ipaddress (Devices s ! i)) = WizDevicePort"

definition to_command_port :: "nat \<Rightarrow> packet list \<Rightarrow> bool" where
  "to_command_port i ps \<longleftrightarrow>
     (\<forall>pk \<in> set ps. payload_id (snd pk) = WIZ_ID_OFFSET + int i \<longrightarrow> sin_port (fst pk) = WizDevicePort)"

section \<open>The sweep, one record at a time\<close>

lemma fst_periodic_device:
  "fst (periodic_device now i nets d) =
     fst (periodic_mismatch now i (fst (periodic_pulse now (fst (periodic_silence now
       (fst (periodic_probe now i nets d)))))))"
  by (simp add: periodic_device_def case_prod_beta)

lemma fst_periodic_probe:
  "fst (periodic_probe now i nets d) = (if now \<ge> last_sense d + 35 then d\<lparr>last_sense := now\<rparr> else d)"
  by (simp add: periodic_probe_def)

lemma fst_periodic_silence:
  "fst (periodic_silence now d) =
     (if detected d > 0 \<and> detected d < now - 100
      then (housewiz_device_reset 0 d)\<lparr>detected := 0\<rparr> else d)"
  by (simp add: periodic_silence_def)

lemma fst_periodic_pulse:
  "fst (periodic_pulse now d) =
     (if deadline d > 0 \<and> now \<ge> deadline d
      then d\<lparr>commanded := 0, pending := now + 5, deadline := 0\<rparr> else d)"
  by (simp add: periodic_pulse_def)

lemma fst_periodic_mismatch:
  "fst (periodic_mismatch now i d) =
     (if status d \<noteq> commanded d \<and> pending d \<le> now then housewiz_device_reset (status d) d else d)"
  by (simp add: periodic_mismatch_def)









lemma pulse_inv_probe: "pulse_inv t0 d \<Longrightarrow> pulse_inv t0 (fst (periodic_probe now i nets d))"
  by (simp add: pulse_inv_def fst_periodic_probe)

lemma pulse_inv_silence:
  assumes "pulse_inv t0 d" "now < t0 + 10"
  shows "fst (periodic_silence now d) = d"
proof -
  have "\<not> (detected d > 0 \<and> detected d < now - 100)"
    using assms unfolding pulse_inv_def by auto
  then show ?thesis by (auto simp: fst_periodic_silence)
qed

lemma pulse_inv_pulse:
  assumes "pulse_inv t0 d" "now < t0 + 10"
  shows "fst (periodic_pulse now d) = d"
proof -
  have "\<not> (deadline d > 0 \<and> now \<ge> deadline d)"
    using assms unfolding pulse_inv_def by auto
  then show ?thesis by (auto simp: fst_periodic_pulse)
qed

lemma pulse_inv_mismatch:
  assumes "pulse_inv t0 d"
  shows "fst (periodic_mismatch now i d) = d"
proof -
  have "status d = commanded d"
    using assms by (simp add: pulse_inv_def)
  then show ?thesis by (simp add: fst_periodic_mismatch)
qed

lemma pulse_inv_sweep:
  assumes "pulse_inv t0 d" "now < t0 + 10"
  shows "pulse_inv t0 (fst (periodic_device now i nets d))"
proof -
  let ?d1 = "fst (periodic_probe now i nets d)"
  have p1: "pulse_inv t0 ?d1"
    using assms(1) by (rule pulse_inv_probe)
  have "fst (periodic_device now i nets d) = ?d1"
    unfolding fst_periodic_device
    by (simp add: pulse_inv_silence [OF p1 assms(2)] pulse_inv_pulse [OF p1 assms(2)]
                  pulse_inv_mismatch [OF p1])
  then show ?thesis using p1 by simp
qed

lemma pulse_expiry_stage:
  assumes "pulse_inv t0 d" "0 < t0 + 10" "t0 + 10 \<le> now"
  shows "commanded (fst (periodic_mismatch now i (fst (periodic_pulse now (fst (periodic_silence now d)))))) = 0"
proof (cases "detected d > 0 \<and> detected d < now - 100")
  case True
  then have "fst (periodic_silence now d) = (housewiz_device_reset 0 d)\<lparr>detected := 0\<rparr>"
    by (simp add: fst_periodic_silence)
  then show ?thesis
    by (simp add: fst_periodic_pulse fst_periodic_mismatch housewiz_device_reset_def)
next
  case False
  then have "fst (periodic_silence now d) = d"
    by (auto simp: fst_periodic_silence)
  then show ?thesis
    using assms by (simp add: pulse_inv_def fst_periodic_pulse fst_periodic_mismatch)
qed

lemma pulse_inv_expiry:
  assumes "pulse_inv t0 d" "0 < t0 + 10" "t0 + 10 \<le> now"
  shows "commanded (fst (periodic_device now i nets d)) = 0"
  unfolding fst_periodic_device
  by (rule pulse_expiry_stage [of t0]) (intro pulse_inv_probe assms)+

section \<open>The loop over the registry\<close>

lemma periodic_step_Devices:
  "Devices (periodic_step now i s) = (Devices s)[i := fst (periodic_device now i (Networks s) (Devices s ! i))]"
  by (simp add: periodic_step_def split: prod.splits)

lemma periodic_step_other [simp]:
  "Networks (periodic_step now i s) = Networks s"
  "LastRetry (periodic_step now i s) = LastRetry s"
  "LastSense (periodic_step now i s) = LastSense s"
  "DevicesCount (periodic_step now i s) = DevicesCount s"
  "DevicesSpace (periodic_step now i s) = DevicesSpace s"
  by (simp_all add: periodic_step_def split: prod.splits)

lemma periodic_loop_other [simp]:
  "Networks (periodic_loop now is s) = Networks s"
  "LastRetry (periodic_loop now is s) = LastRetry s"
  "LastSense (periodic_loop now is s) = LastSense s"
  "DevicesCount (periodic_loop now is s) = DevicesCount s"
  "DevicesSpace (periodic_loop now is s) = DevicesSpace s"
  by (induction "is" arbitrary: s; simp)+

lemma periodic_loop_length [simp]:
  "length (Devices (periodic_loop now is s)) = length (Devices s)"
  by (induction "is" arbitrary: s) (simp_all add: periodic_step_Devices)

lemma periodic_loop_nth:
  "distinct is \<Longrightarrow> d < length (Devices s) \<Longrightarrow>
   Devices (periodic_loop now is s) ! d =
     (if d \<in> set is then fst (periodic_device now d (Networks s) (Devices s ! d)) else Devices s ! d)"
proof (induction "is" arbitrary: s)
  case Nil
  then show ?case by simp
next
  case (Cons i "is")
  have len: "d < length (Devices (periodic_step now i s))"
    using Cons.prems by (simp add: periodic_step_Devices)
  have dist: "distinct is" and ni: "i \<notin> set is"
    using Cons.prems by simp_all
  show ?case
  proof (cases "d = i")
    case True
    then show ?thesis
      using Cons.IH [OF dist len] ni Cons.prems by (simp add: periodic_step_Devices)
  next
    case False
    then show ?thesis
      using Cons.IH [OF dist len] Cons.prems by (simp add: periodic_step_Devices)
  qed
qed

lemma periodic_LastRetry:
  "LastRetry (housewiz_device_periodic now ifs s) = (if now < LastRetry s + 5 then LastRetry s else now)"
  by (simp add: housewiz_device_periodic_def housewiz_device_sense_def Let_def)

lemma periodic_shape [simp]:
  "DevicesCount (housewiz_device_periodic now ifs s) = DevicesCount s"
  "DevicesSpace (housewiz_device_periodic now ifs s) = DevicesSpace s"
  "length (Devices (housewiz_device_periodic now ifs s)) = length (Devices s)"
  by (simp_all add: housewiz_device_periodic_def housewiz_device_sense_def Let_def)

lemma periodic_nth:
  assumes "d < DevicesCount s" "DevicesCount s \<le> length (Devices s)"
  shows "\<exists>nets. Devices (housewiz_device_periodic now ifs s) ! d =
           (if now < LastRetry s + 5 then Devices s ! d
            else fst (periodic_device now d nets (Devices s ! d)))"
  using assms
  by (auto simp: housewiz_device_periodic_def housewiz_device_sense_def Let_def periodic_loop_nth)

lemma set_in_range:
  assumes "d < DevicesCount s" "DevicesCount s \<le> length (Devices s)"
  shows "map_option fst (housewiz_device_set now (int d) state pulse s) = Some 1"
    and "DevicesCount (after_set now (int d) state pulse s) = DevicesCount s"
    and "length (Devices (after_set now (int d) state pulse s)) = length (Devices s)"
    and "LastRetry (after_set now (int d) state pulse s) = LastRetry s"
    and "Devices (after_set now (int d) state pulse s) ! d =
           (Devices s ! d)\<lparr>deadline := (if pulse > 0 then now + pulse else 0),
                            commanded := state, pending := now + 5\<rparr>"
  using assms by (simp_all add: after_set_def housewiz_device_set_def Let_def)

lemma tick_device:
  assumes "d < DevicesCount s" "DevicesCount s \<le> length (Devices s)"
    and "P (Devices s ! d)"
    and "\<And>nets. LastRetry s + 5 \<le> now \<Longrightarrow> P (fst (periodic_device now d nets (Devices s ! d)))"
  shows "P (Devices (housewiz_device_periodic now ifs s) ! d)"
proof -
  from periodic_nth [OF assms(1,2), of now ifs] obtain nets where
    eq: "Devices (housewiz_device_periodic now ifs s) ! d =
           (if now < LastRetry s + 5 then Devices s ! d
            else fst (periodic_device now d nets (Devices s ! d)))" ..
  show ?thesis
  proof (cases "now < LastRetry s + 5")
    case True
    then show ?thesis using eq assms(3) by simp
  next
    case False
    then show ?thesis using eq assms(4) [of nets] by simp
  qed
qed




lemma pulse_run:
  assumes "d < DevicesCount s" "DevicesCount s \<le> length (Devices s)"
    and "pulse_inv t (Devices s ! d)"
    and "\<forall>x \<in> set (sweeps (LastRetry s) ts). x < t + 10"
  shows "pulse_inv t (Devices (periodic_run env ts s) ! d) \<and>
         d < DevicesCount (periodic_run env ts s) \<and>
         DevicesCount (periodic_run env ts s) \<le> length (Devices (periodic_run env ts s))"
  using assms
proof (induction ts arbitrary: s)
  case Nil
  then show ?case by simp
next
  case (Cons a ts)
  let ?s1 = "housewiz_device_periodic a (env a) s"
  have shape: "d < DevicesCount ?s1" "DevicesCount ?s1 \<le> length (Devices ?s1)"
    using Cons.prems(1,2) by simp_all
  have lr: "LastRetry ?s1 = (if a < LastRetry s + 5 then LastRetry s else a)"
    by (rule periodic_LastRetry)
  have inv: "pulse_inv t (Devices ?s1 ! d)"
  proof (rule tick_device [where P = "pulse_inv t", OF Cons.prems(1,2,3)])
    fix nets
    assume "LastRetry s + 5 \<le> a"
    then have "a < t + 10"
      using Cons.prems(4) by simp
    then show "pulse_inv t (fst (periodic_device a d nets (Devices s ! d)))"
      using Cons.prems(3) by (intro pulse_inv_sweep)
  qed
  have rest: "\<forall>x \<in> set (sweeps (LastRetry ?s1) ts). x < t + 10"
    using Cons.prems(4) lr by (simp split: if_splits)
  from Cons.IH [OF shape inv rest] show ?case
    by simp
qed

section \<open>The array invariant\<close>

text \<open>
  A successful reload makes the registry well formed, and every operation keeps it so:
  the hypotheses on the device count in the theorems below hold in every registry the
  program reaches after a successful reload.
\<close>

lemma refresh_loop_length [simp]: "length (refresh_loop es k devs) = length devs"
  by (induction es arbitrary: k devs) simp_all

lemma refresh_wf:
  "housewiz_device_refresh reason cfg alloc_ok s = (None, s') \<Longrightarrow> wf_registry s'"
  by (auto simp: housewiz_device_refresh_def Let_def wf_registry_def
           split: option.splits if_splits)

lemma periodic_wf: "wf_registry s \<Longrightarrow> wf_registry (housewiz_device_periodic now ifs s)"
  by (simp add: wf_registry_def)

lemma set_wf: "wf_registry s \<Longrightarrow> wf_registry (after_set now device state pulse s)"
  by (simp add: after_set_def housewiz_device_set_def wf_registry_def Let_def)

lemma resolve_wf: "wf_registry s \<Longrightarrow> wf_registry (snd (receive_resolve now mac s))"
  by (simp add: receive_resolve_def Let_def wf_registry_def)

lemma receive_wf:
  assumes "wf_registry s"
  shows "wf_registry (housewiz_device_receive now dg s)"
proof (cases "receive_parse dg")
  case None
  then show ?thesis using assms by (simp add: housewiz_device_receive_def)
next
  case (Some r)
  obtain mac manual st where r: "r = (mac, manual, st)"
    by (cases r) auto
  have "wf_registry (snd (receive_resolve now mac s))"
    using assms by (rule resolve_wf)
  then show ?thesis
    using Some r by (simp add: housewiz_device_receive_def wf_registry_def case_prod_beta)
qed

lemma accessors_rejected:
  assumes "point < 0 \<or> int (DevicesCount s) < point"
  shows "housewiz_device_name point s = Some None \<and>
         housewiz_device_commanded point s = Some 0 \<and>
         housewiz_device_deadline point s = Some 0 \<and>
         housewiz_device_get point s = Some 0 \<and>
         housewiz_device_failure point s = Some None"
proof -
  have "device_at point s = Some None"
    using assms by (auto simp: device_at_def)
  then show ?thesis
    by (simp add: housewiz_device_name_def housewiz_device_commanded_def
                  housewiz_device_deadline_def housewiz_device_get_def
                  housewiz_device_failure_def)
qed

section \<open>Retry bound\<close>




section \<open>Pulse exactness\<close>

text \<open>
  Claim C3, as amended. \<open>set (d, true, 10)\<close> is issued at \<open>t\<close> (with \<open>0 < t + 10\<close>) on a
  live record whose status is already on and that is not declared silent before
  \<open>t + 10\<close>; no report arrives. After any calls of the scheduler whose sweeps all
  happen before \<open>t + 10\<close> the commanded flag is still on, and the next call at a time
  \<open>u\<close> at or after \<open>t + 10\<close> that sweeps leaves the commanded flag off.
\<close>

theorem pulse_exactness:
  assumes "d < DevicesCount s" and "DevicesCount s \<le> length (Devices s)"
    and "status (Devices s ! d) = 1"
    and "detected (Devices s ! d) \<le> 0 \<or> t - 91 \<le> detected (Devices s ! d)"
    and "0 < t + 10"
    and "\<forall>x \<in> set (sweeps (LastRetry s) ts). x < t + 10"
    and "t + 10 \<le> u"
    and "LastRetry (periodic_run env ts (after_set t (int d) 1 10 s)) + 5 \<le> u"
  shows "map_option fst (housewiz_device_set t (int d) 1 10 s) = Some 1 \<and>
         commanded (Devices (periodic_run env ts (after_set t (int d) 1 10 s)) ! d) = 1 \<and>
         commanded (Devices (housewiz_device_periodic u ifs
                      (periodic_run env ts (after_set t (int d) 1 10 s))) ! d) = 0"
proof -
  let ?s1 = "after_set t (int d) 1 10 s"
  let ?s2 = "periodic_run env ts ?s1"
  note facts = set_in_range [OF assms(1,2), of t 1 10]
  have shape: "d < DevicesCount ?s1" "DevicesCount ?s1 \<le> length (Devices ?s1)"
    using facts(2,3) assms(1,2) by simp_all
  have inv: "pulse_inv t (Devices ?s1 ! d)"
    using assms(3,4) unfolding facts(5) pulse_inv_def by simp
  have gate: "\<forall>x \<in> set (sweeps (LastRetry ?s1) ts). x < t + 10"
    using assms(6) facts(4) by simp
  note run = pulse_run [OF shape inv gate, of env]
  have before: "commanded (Devices ?s2 ! d) = 1"
    using run by (simp add: pulse_inv_def)
  from run have shape2: "d < DevicesCount ?s2" "DevicesCount ?s2 \<le> length (Devices ?s2)"
    and inv2: "pulse_inv t (Devices ?s2 ! d)"
    by simp_all
  from periodic_nth [OF shape2, of u ifs] assms(8) obtain nets where
    "Devices (housewiz_device_periodic u ifs ?s2) ! d = fst (periodic_device u d nets (Devices ?s2 ! d))"
    by auto
  then have "commanded (Devices (housewiz_device_periodic u ifs ?s2) ! d) = 0"
    using pulse_inv_expiry [OF inv2 assms(5,7)] by simp
  then show ?thesis
    using facts(1) before by simp
qed

text \<open>The theorem at the lamp that is on: a sweep at 105, then the sweep at 110.\<close>

theorem pulse_exactness_witness:
  "0 < DevicesCount (one_device lamp 100) \<and>
   DevicesCount (one_device lamp 100) \<le> length (Devices (one_device lamp 100)) \<and>
   status (Devices (one_device lamp 100) ! 0) = 1 \<and>
   (detected (Devices (one_device lamp 100) ! 0) \<le> 0
      \<or> 100 - 91 \<le> detected (Devices (one_device lamp 100) ! 0)) \<and>
   (0::int) < 100 + 10 \<and>
   sweeps (LastRetry (one_device lamp 100)) [105] = [105] \<and>
   (100::int) + 10 \<le> 110 \<and>
   LastRetry (periodic_run no_interfaces [105] (after_set 100 (int 0) 1 10 (one_device lamp 100))) + 5 \<le> 110 \<and>
   map_option fst (housewiz_device_set 100 (int 0) 1 10 (one_device lamp 100)) = Some 1 \<and>
   commanded (Devices (periodic_run no_interfaces [105]
                (after_set 100 (int 0) 1 10 (one_device lamp 100))) ! 0) = 1 \<and>
   commanded (Devices (housewiz_device_periodic 110 []
                (periodic_run no_interfaces [105] (after_set 100 (int 0) 1 10 (one_device lamp 100)))) ! 0) = 0"
proof -
  have a: "0 < DevicesCount (one_device lamp 100)"
    by (simp add: one_device_def)
  have b: "DevicesCount (one_device lamp 100) \<le> length (Devices (one_device lamp 100))"
    by (simp add: one_device_def)
  have c: "status (Devices (one_device lamp 100) ! 0) = 1"
    by (simp add: one_device_def lamp_def)
  have d: "detected (Devices (one_device lamp 100) ! 0) \<le> 0
      \<or> 100 - 91 \<le> detected (Devices (one_device lamp 100) ! 0)"
    by (simp add: one_device_def lamp_def)
  have e: "(0::int) < 100 + 10"
    by simp
  have f: "\<forall>x \<in> set (sweeps (LastRetry (one_device lamp 100)) [105]). x < 100 + 10"
    by (simp add: one_device_def)
  have g: "(100::int) + 10 \<le> 110"
    by simp
  have h: "LastRetry (periodic_run no_interfaces [105]
             (after_set 100 (int 0) 1 10 (one_device lamp 100))) + 5 \<le> 110"
    by (simp add: periodic_LastRetry after_set_def housewiz_device_set_def one_device_def Let_def)
  have f': "sweeps (LastRetry (one_device lamp 100)) [105] = [105]"
    by (simp add: one_device_def)
  show ?thesis
    using a b c d e f' g h pulse_exactness [OF a b c d e f g h, of "[]"] by simp
qed

text \<open>
  The claim as stated fails when the status is off: the command times out at the
  sweep at 105, which resets the commanded flag to the status, before \<open>t + 10 = 110\<close>.
\<close>

theorem pulse_exactness_counterexample:
  "map_option fst (housewiz_device_set 100 0 1 10 (one_device lamp_off 100)) = Some 1 \<and>
   sweeps (LastRetry (after_set 100 0 1 10 (one_device lamp_off 100))) [105] = [105] \<and>
   commanded (Devices (after_set 100 0 1 10 (one_device lamp_off 100)) ! 0) = 1 \<and>
   commanded (Devices (periodic_run no_interfaces [105]
                (after_set 100 0 1 10 (one_device lamp_off 100))) ! 0) = 0"
  by code_simp

section \<open>Inbound reports: the search and the record\<close>

lemma strcasecmp_zero_iff: "strcasecmp a b = 0 \<longleftrightarrow> map tolower a = map tolower b"
  by (induction a b rule: strcasecmp.induct) auto

lemma mac_scan_range:
  "mac_scan m ds k = -1 \<or> (int k \<le> mac_scan m ds k \<and> mac_scan m ds k < int k + int (length ds))"
proof (induction ds arbitrary: k)
  case Nil
  then show ?case by simp
next
  case (Cons d ds)
  from Cons.IH [of "Suc k"] show ?case by auto
qed

lemma mac_scan_cong:
  "map macaddress ds = map macaddress ds' \<Longrightarrow> mac_scan m ds k = mac_scan m ds' k"
proof (induction ds arbitrary: ds' k)
  case Nil
  then show ?case by simp
next
  case (Cons d ds)
  then obtain e es where "ds' = e # es" by (cases ds') auto
  with Cons show ?case by auto
qed

lemma mac_scan_same:
  "strcasecmp m m' = 0 \<Longrightarrow> mac_scan m' ds k = mac_scan m ds k"
  by (induction ds arbitrary: k) (simp_all add: strcasecmp_zero_iff)

lemma mac_scan_snoc:
  "mac_scan m (ds @ [d]) k =
     (if mac_scan m ds k \<noteq> -1 then mac_scan m ds k
      else if strcasecmp m (macaddress d) = 0 then int k + int (length ds) else -1)"
proof (induction ds arbitrary: k)
  case Nil
  then show ?case by simp
next
  case (Cons e es)
  have "mac_scan m es (Suc k) = -1 \<or> int (Suc k) \<le> mac_scan m es (Suc k)"
    using mac_scan_range [of m es "Suc k"] by auto
  then show ?case
    using Cons.IH [of "Suc k"] by auto
qed

lemma search_bound:
  assumes "DevicesCount s \<le> length (Devices s)" "housewiz_device_mac_search m s = int i"
  shows "i < DevicesCount s"
  using mac_scan_range [of m "take (DevicesCount s) (Devices s)" 0] assms
  by (simp add: housewiz_device_mac_search_def)

lemma search_negative:
  "housewiz_device_mac_search m s < 0 \<longleftrightarrow> housewiz_device_mac_search m s = -1"
  using mac_scan_range [of m "take (DevicesCount s) (Devices s)" 0]
  by (auto simp: housewiz_device_mac_search_def)

lemma search_same:
  "strcasecmp m m' = 0 \<Longrightarrow> housewiz_device_mac_search m' s = housewiz_device_mac_search m s"
  by (simp add: housewiz_device_mac_search_def mac_scan_same)

lemma search_update:
  assumes "macaddress d = macaddress (Devices s ! i)"
    and "DevicesCount s' = DevicesCount s" "Devices s' = (Devices s)[i := d]"
  shows "housewiz_device_mac_search m s' = housewiz_device_mac_search m s"
proof -
  have "map macaddress ((Devices s)[i := d]) = map macaddress (Devices s)"
  proof (cases "i < length (Devices s)")
    case True
    then show ?thesis
      using assms(1) by (simp add: map_update list_update_same_conv)
  next
    case False
    then have "(Devices s)[i := d] = Devices s"
      by (intro list_update_beyond) simp
    then show ?thesis by simp
  qed
  then have "map macaddress (take (DevicesCount s) ((Devices s)[i := d]))
           = map macaddress (take (DevicesCount s) (Devices s))"
    by (simp add: take_map [symmetric] del: take_map)
  then show ?thesis
    unfolding housewiz_device_mac_search_def assms(2,3) by (rule mac_scan_cong)
qed

lemma fst_receive_device:
  "fst (receive_device now a mac manual st i d) =
     (fst (receive_change manual (if manual then 1 else st)
        (fst (receive_manual manual i (d\<lparr>detected := now\<rparr>)))))\<lparr>ipaddress := a\<lparr>sin_port := WizDevicePort\<rparr>\<rparr>"
  by (simp add: receive_device_def receive_detect_def case_prod_beta)

lemma events_receive_device:
  "map action (snd (snd (receive_device now a mac manual st i d))) =
     detected_note d @
     map action (snd (receive_change manual (if manual then 1 else st)
        (fst (receive_manual manual i (d\<lparr>detected := now\<rparr>)))))"
  by (simp add: receive_device_def receive_detect_def detected_note_def case_prod_beta)

lemma macaddress_receive_change [simp]:
  "macaddress (fst (receive_change manual st d)) = macaddress d"
  by (simp add: receive_change_def)

lemma macaddress_receive_manual [simp]:
  "macaddress (fst (receive_manual manual i d)) = macaddress d"
  by (simp add: receive_manual_def)

lemma macaddress_receive_device [simp]:
  "macaddress (fst (receive_device now a mac manual st i d)) = macaddress d"
  by (simp add: fst_receive_device)

lemma resolve_known:
  "0 \<le> housewiz_device_mac_search mac s \<Longrightarrow>
   receive_resolve now mac s = (housewiz_device_mac_search mac s, s)"
  by (simp add: receive_resolve_def Let_def)

lemma receive_known:
  assumes "receive_parse dg = Some (mac, manual, st)"
    and "housewiz_device_mac_search mac s = int i"
  shows "housewiz_device_receive now dg s =
     s\<lparr>Devices := (Devices s)[i := fst (receive_device now (sender dg) mac manual st i (Devices s ! i))],
       sent := sent s @ fst (snd (receive_device now (sender dg) mac manual st i (Devices s ! i))),
       events := events s @ snd (snd (receive_device now (sender dg) mac manual st i (Devices s ! i)))\<rparr>"
  using assms by (simp add: housewiz_device_receive_def resolve_known case_prod_beta)

lemma receive_known_device:
  assumes "receive_parse dg = Some (mac, manual, st)"
    and "housewiz_device_mac_search mac s = int i"
    and "DevicesCount s \<le> length (Devices s)"
  shows "Devices (housewiz_device_receive now dg s) ! i =
           fst (receive_device now (sender dg) mac manual st i (Devices s ! i))"
    and "emitted s (housewiz_device_receive now dg s) =
           map action (snd (snd (receive_device now (sender dg) mac manual st i (Devices s ! i))))"
proof -
  have "i < length (Devices s)"
    using search_bound [OF assms(3,2)] assms(3) by simp
  then show "Devices (housewiz_device_receive now dg s) ! i =
           fst (receive_device now (sender dg) mac manual st i (Devices s ! i))"
    by (simp add: receive_known [OF assms(1,2)])
  show "emitted s (housewiz_device_receive now dg s) =
           map action (snd (snd (receive_device now (sender dg) mac manual st i (Devices s ! i))))"
    by (simp add: receive_known [OF assms(1,2)] emitted_def)
qed

lemma parse_mac:
  "receive_parse dg = Some (mac, manual, st) \<Longrightarrow> params_mac dg = Some (JString mac)"
  by (auto simp: receive_parse_def split: if_splits option.splits jvalue.splits)

lemma resolve_new:
  assumes "housewiz_device_mac_search mac s < 0" "DevicesCount s < DevicesSpace s"
  shows "fst (receive_resolve now mac s) = int (DevicesCount s)"
    and "DevicesCount (snd (receive_resolve now mac s)) = DevicesCount s + 1"
    and "DevicesSpace (snd (receive_resolve now mac s)) = DevicesSpace s"
    and "Devices (snd (receive_resolve now mac s)) =
           (Devices s)[DevicesCount s :=
              (Devices s ! DevicesCount s)\<lparr>name := take 31 (''wiz'' @ decimal (DevicesCount s + 1)),
                 macaddress := take 15 mac, description := ''autogenerated'',
                 detected := now, last_sense := 0\<rparr>]"
  using assms by (simp_all add: receive_resolve_def Let_def)

lemma resolve_full:
  assumes "housewiz_device_mac_search mac s < 0" "\<not> DevicesCount s < DevicesSpace s"
  shows "receive_resolve now mac s = (housewiz_device_mac_search mac s, s)"
  using assms by (simp add: receive_resolve_def Let_def)

lemma resolve_shape:
  assumes "wf_registry s" "receive_resolve now mac s = (device, s1)" "0 \<le> device"
  shows "nat device < DevicesCount s1 \<and> wf_registry s1"
proof (cases "0 \<le> housewiz_device_mac_search mac s")
  case True
  then have eq: "device = housewiz_device_mac_search mac s" "s1 = s"
    using assms(2) by (auto simp: resolve_known)
  have "housewiz_device_mac_search mac s = int (nat device)"
    using eq(1) assms(3) by simp
  then have "nat device < DevicesCount s"
    using assms(1) by (intro search_bound) (simp_all add: wf_registry_def)
  then show ?thesis using eq(2) assms(1) by simp
next
  case False
  then have neg: "housewiz_device_mac_search mac s < 0" by simp
  show ?thesis
  proof (cases "DevicesCount s < DevicesSpace s")
    case True
    note new = resolve_new [OF neg True, of now]
    have "device = int (DevicesCount s)" "s1 = snd (receive_resolve now mac s)"
      using new(1) assms(2) by simp_all
    then show ?thesis
      using new(2,3,4) True assms(1) by (simp add: wf_registry_def)
  next
    case False
    then have "device = housewiz_device_mac_search mac s"
      using resolve_full [OF neg False, of now] assms(2) by simp
    then show ?thesis using neg assms(3) by simp
  qed
qed

lemma strcasecmp_length: "strcasecmp a b = 0 \<Longrightarrow> length b = length a"
  using map_eq_imp_length_eq [of tolower a tolower b] by (simp add: strcasecmp_zero_iff)

lemma receive_dropped: "receive_parse dg = None \<Longrightarrow> housewiz_device_receive now dg s = s"
  by (simp add: housewiz_device_receive_def)

lemma receive_created:
  assumes "receive_parse dg = Some (mac, manual, st)"
    and "housewiz_device_mac_search mac s < 0" "DevicesCount s < DevicesSpace s"
    and "wf_registry s"
  shows "DevicesCount (housewiz_device_receive now dg s) = DevicesCount s + 1"
    and "DevicesSpace (housewiz_device_receive now dg s) = DevicesSpace s"
    and "length (Devices (housewiz_device_receive now dg s)) = length (Devices s)"
    and "take (DevicesCount s) (Devices (housewiz_device_receive now dg s))
           = take (DevicesCount s) (Devices s)"
    and "macaddress (Devices (housewiz_device_receive now dg s) ! DevicesCount s) = take 15 mac"
proof -
  let ?r = "receive_resolve now mac s"
  let ?c = "DevicesCount s"
  note new = resolve_new [OF assms(2,3), of now]
  have len: "?c < length (Devices s)"
    using assms(3,4) by (simp add: wf_registry_def)
  have eq: "housewiz_device_receive now dg s =
      (snd ?r)\<lparr>Devices := (Devices (snd ?r))[?c :=
           fst (receive_device now (sender dg) mac manual st ?c (Devices (snd ?r) ! ?c))],
         sent := sent (snd ?r) @ fst (snd (receive_device now (sender dg) mac manual st ?c
                                            (Devices (snd ?r) ! ?c))),
         events := events (snd ?r) @ snd (snd (receive_device now (sender dg) mac manual st ?c
                                            (Devices (snd ?r) ! ?c)))\<rparr>"
    using assms(1) new(1) by (simp add: housewiz_device_receive_def case_prod_beta)
  show "DevicesCount (housewiz_device_receive now dg s) = ?c + 1"
    unfolding eq using new(2) by simp
  show "DevicesSpace (housewiz_device_receive now dg s) = DevicesSpace s"
    unfolding eq using new(3) by simp
  show "length (Devices (housewiz_device_receive now dg s)) = length (Devices s)"
    unfolding eq using new(4) by simp
  show "take ?c (Devices (housewiz_device_receive now dg s)) = take ?c (Devices s)"
    unfolding eq using new(4) by simp
  show "macaddress (Devices (housewiz_device_receive now dg s) ! ?c) = take 15 mac"
    unfolding eq using new(4) len by simp
qed

lemma search_created:
  assumes "housewiz_device_mac_search m s < 0" "DevicesCount s < length (Devices s)"
    and "DevicesCount s' = DevicesCount s + 1"
    and "length (Devices s') = length (Devices s)"
    and "take (DevicesCount s) (Devices s') = take (DevicesCount s) (Devices s)"
    and "strcasecmp m (macaddress (Devices s' ! DevicesCount s)) = 0"
  shows "housewiz_device_mac_search m s' = int (DevicesCount s)"
proof -
  let ?c = "DevicesCount s"
  have "take (Suc ?c) (Devices s') = take ?c (Devices s') @ [Devices s' ! ?c]"
    using assms(2,4) by (simp add: take_Suc_conv_app_nth)
  then have split: "take (DevicesCount s') (Devices s') = take ?c (Devices s) @ [Devices s' ! ?c]"
    using assms(3,5) by simp
  have none: "mac_scan m (take ?c (Devices s)) 0 = -1"
    using assms(1) search_negative [of m s] by (simp add: housewiz_device_mac_search_def)
  show ?thesis
    unfolding housewiz_device_mac_search_def split mac_scan_snoc
    using none assms(2,6) by simp
qed

lemma receive_step:
  assumes "wf_registry s" "carries m dg" "length m \<le> 15"
  shows "wf_registry (housewiz_device_receive now dg s) \<and>
     ((DevicesCount (housewiz_device_receive now dg s) = DevicesCount s \<and>
       housewiz_device_mac_search m (housewiz_device_receive now dg s) = housewiz_device_mac_search m s)
      \<or> (housewiz_device_mac_search m s < 0 \<and>
          DevicesCount (housewiz_device_receive now dg s) = DevicesCount s + 1 \<and>
          housewiz_device_mac_search m (housewiz_device_receive now dg s) = int (DevicesCount s)))"
proof (cases "receive_parse dg")
  case None
  then show ?thesis using assms(1) by (simp add: receive_dropped)
next
  case (Some r)
  then obtain mac manual st where parse: "receive_parse dg = Some (mac, manual, st)"
    by (cases r) auto
  have same: "strcasecmp m mac = 0"
    using assms(2) parse_mac [OF parse] by (simp add: carries_def)
  have search: "housewiz_device_mac_search mac s = housewiz_device_mac_search m s"
    using same by (rule search_same)
  let ?s' = "housewiz_device_receive now dg s"
  show ?thesis
  proof (cases "0 \<le> housewiz_device_mac_search mac s")
    case True
    then obtain i where i: "housewiz_device_mac_search mac s = int i"
      using nonneg_int_cases by blast
    note eq = receive_known [OF parse i, of now]
    have "housewiz_device_mac_search m ?s' = housewiz_device_mac_search m s"
      by (rule search_update [where i = i and
            d = "fst (receive_device now (sender dg) mac manual st i (Devices s ! i))"])
         (simp_all add: eq)
    moreover have "DevicesCount ?s' = DevicesCount s" "wf_registry ?s'"
      using assms(1) by (simp_all add: eq wf_registry_def)
    ultimately show ?thesis by simp
  next
    case False
    then have neg: "housewiz_device_mac_search mac s < 0" by simp
    show ?thesis
    proof (cases "DevicesCount s < DevicesSpace s")
      case True
      note made = receive_created [OF parse neg True assms(1), of now]
      have len: "DevicesCount s < length (Devices s)"
        using True assms(1) by (simp add: wf_registry_def)
      have "length mac \<le> 15"
        using strcasecmp_length [OF same] assms(3) by simp
      then have stored: "strcasecmp m (macaddress (Devices ?s' ! DevicesCount s)) = 0"
        using made(5) same by simp
      have "housewiz_device_mac_search m ?s' = int (DevicesCount s)"
        using neg search len made(1,3,4) stored by (intro search_created) simp_all
      moreover have "wf_registry ?s'"
        using made(1,2,3) True assms(1) by (simp add: wf_registry_def)
      ultimately show ?thesis
        using made(1) neg search by simp
    next
      case False
      then have "?s' = s"
        using parse neg by (simp add: housewiz_device_receive_def resolve_full)
      then show ?thesis using assms(1) by simp
    qed
  qed
qed

lemma set_rejected:
  "device < 0 \<or> int (DevicesCount s) < device \<Longrightarrow>
   housewiz_device_set now device state pulse s = Some (0, s)"
  by (auto simp: housewiz_device_set_def)

lemma first_beat_known:
  assumes "receive_parse dg = Some (mac, True, st)"
    and "housewiz_device_mac_search mac s = int i"
    and "DevicesCount s \<le> length (Devices s)"
  shows "commanded (Devices (housewiz_device_receive now dg s) ! i) = 1 \<and>
         status (Devices (housewiz_device_receive now dg s) ! i) = 1 \<and>
         pending (Devices (housewiz_device_receive now dg s) ! i) = 0 \<and>
         sent (housewiz_device_receive now dg s)
           = sent s @ [(ipaddress (Devices s ! i), SetPilot (WIZ_ID_OFFSET + int i) True)]"
proof -
  have "sent (housewiz_device_receive now dg s)
          = sent s @ [(ipaddress (Devices s ! i), SetPilot (WIZ_ID_OFFSET + int i) True)]"
    by (simp add: receive_known [OF assms(1,2)] receive_device_def receive_detect_def
                  receive_manual_def control_packet_def case_prod_beta)
  then show ?thesis
    unfolding receive_known_device [OF assms] fst_receive_device
    by (simp add: receive_manual_def receive_change_def)
qed

lemma refresh_loop_status:
  assumes "\<forall>d \<in> set devs. status d = 0"
  shows "\<forall>d \<in> set (refresh_loop es k devs). status d = 0"
  using assms
proof (induction es arbitrary: k devs)
  case Nil
  then show ?case by simp
next
  case (Cons e es)
  have zero: "status (load_device e (devs ! k)) = 0" if "k < length devs"
  proof -
    have "status (devs ! k) = 0"
      using Cons.prems that by simp
    then show ?thesis
      by (simp add: load_device_def housewiz_device_reset_def Let_def
               split: option.splits)
  qed
  have "\<forall>d \<in> set (devs[k := load_device e (devs ! k)]). status d = 0"
  proof (cases "k < length devs")
    case True
    then show ?thesis
      using Cons.prems zero by (auto dest!: set_update_subset_insert [THEN subsetD])
  next
    case False
    then have "devs[k := load_device e (devs ! k)] = devs"
      by (intro list_update_beyond) simp
    then show ?thesis using Cons.prems by simp
  qed
  then show ?case
    using Cons.IH by simp
qed

lemma refresh_status:
  assumes "housewiz_device_refresh reason cfg alloc_ok s = (None, s')"
  shows "\<forall>d \<in> set (Devices s'). status d = 0"
proof -
  have base: "\<forall>d \<in> set (replicate n zero_device). status d = 0" for n
    by (simp add: zero_device_def)
  show ?thesis
    using assms refresh_loop_status [OF base]
    by (auto simp: housewiz_device_refresh_def Let_def zero_device_def
             split: option.splits if_splits)
qed

lemma resolve_events:
  assumes "receive_resolve now mac s = (device, s1)" "0 \<le> device"
  shows "map action (drop (length (events s)) (events s1)) = created_note mac s"
    and "sent s1 = sent s"
proof -
  show "map action (drop (length (events s)) (events s1)) = created_note mac s"
    using assms by (auto simp: receive_resolve_def Let_def created_note_def split: if_splits)
  show "sent s1 = sent s"
    using assms by (auto simp: receive_resolve_def Let_def split: if_splits)
qed

lemma resolve_events_prefix:
  assumes "receive_resolve now mac s = (device, s1)"
  shows "length (events s) \<le> length (events s1)"
  using assms by (auto simp: receive_resolve_def Let_def split: if_splits)

lemma receive_resolved:
  assumes "wf_registry s"
    and "receive_parse dg = Some (mac, manual, st)"
    and "receive_resolve now mac s = (device, s1)"
    and "0 \<le> device"
  shows "Devices (housewiz_device_receive now dg s) ! nat device =
           fst (receive_device now (sender dg) mac manual st (nat device) (Devices s1 ! nat device))"
    and "emitted s (housewiz_device_receive now dg s) =
           created_note mac s @
           map action (snd (snd (receive_device now (sender dg) mac manual st (nat device)
                                   (Devices s1 ! nat device))))"
    and "sent (housewiz_device_receive now dg s) =
           sent s @ fst (snd (receive_device now (sender dg) mac manual st (nat device)
                                (Devices s1 ! nat device)))"
proof -
  let ?r = "receive_device now (sender dg) mac manual st (nat device) (Devices s1 ! nat device)"
  have eq: "housewiz_device_receive now dg s =
      s1\<lparr>Devices := (Devices s1)[nat device := fst ?r],
         sent := sent s1 @ fst (snd ?r), events := events s1 @ snd (snd ?r)\<rparr>"
    using assms(2,3,4) by (simp add: housewiz_device_receive_def case_prod_beta)
  have len: "nat device < length (Devices s1)"
    using resolve_shape [OF assms(1,3,4)] by (simp add: wf_registry_def)
  show "Devices (housewiz_device_receive now dg s) ! nat device = fst ?r"
    using len by (simp add: eq)
  show "emitted s (housewiz_device_receive now dg s) = created_note mac s @ map action (snd (snd ?r))"
    using resolve_events(1) [OF assms(3,4)] resolve_events_prefix [OF assms(3)]
    by (simp add: eq emitted_def)
  show "sent (housewiz_device_receive now dg s) = sent s @ fst (snd ?r)"
    using resolve_events(2) [OF assms(3,4)] by (simp add: eq)
qed

section \<open>A report that changes the state\<close>

text \<open>
  Claim C1, as amended. A \<^verbatim>\<open>syncPilot\<close> report resolves to a record: the one found
  by its MAC address, or the one just created for it. When its state \<open>st\<close> differs from
  the status of that record, the status becomes \<open>st\<close> in every case, and with the
  detection time and the endpoint nothing else changes but this: if no command is
  pending, the commanded flag takes \<open>st\<close> and a \<open>CHANGED\<close> event is emitted; if a command
  is pending and \<open>st\<close> is the commanded state, the pending time is cleared and a
  \<open>CONFIRMED\<close> event is emitted; if a command is pending and \<open>st\<close> is not the commanded
  state, the commanded flag and the pending time stay as they are and no event is
  emitted for the change. (The events are preceded by the note of the creation or of
  a first detection, if any.)
\<close>

theorem report_change:
  assumes "wf_registry s"
    and "receive_parse dg = Some (mac, False, st)"
    and "receive_resolve now mac s = (device, s1)"
    and "0 \<le> device"
    and "status (Devices s1 ! nat device) \<noteq> st"
  shows
    "(if pending (Devices s1 ! nat device) = 0 then
        Devices (housewiz_device_receive now dg s) ! nat device =
          (Devices s1 ! nat device)\<lparr>detected := now, commanded := st, status := st,
             ipaddress := (sender dg)\<lparr>sin_port := WizDevicePort\<rparr>\<rparr> \<and>
        emitted s (housewiz_device_receive now dg s) =
          created_note mac s @ detected_note (Devices s1 ! nat device) @ [''CHANGED'']
      else if st = commanded (Devices s1 ! nat device) then
        Devices (housewiz_device_receive now dg s) ! nat device =
          (Devices s1 ! nat device)\<lparr>detected := now, pending := 0, status := st,
             ipaddress := (sender dg)\<lparr>sin_port := WizDevicePort\<rparr>\<rparr> \<and>
        emitted s (housewiz_device_receive now dg s) =
          created_note mac s @ detected_note (Devices s1 ! nat device) @ [''CONFIRMED'']
      else
        Devices (housewiz_device_receive now dg s) ! nat device =
          (Devices s1 ! nat device)\<lparr>detected := now, status := st,
             ipaddress := (sender dg)\<lparr>sin_port := WizDevicePort\<rparr>\<rparr> \<and>
        emitted s (housewiz_device_receive now dg s) =
          created_note mac s @ detected_note (Devices s1 ! nat device))"
  using assms(5)
  unfolding receive_resolved [OF assms(1,2,3,4)] fst_receive_device events_receive_device
  by (simp add: receive_manual_def receive_change_def)

text \<open>
  The theorem at the first report of a new bulb, \<open>on\<close>: the record created is off with
  no command pending.
\<close>

theorem report_change_witness:
  "wf_registry empty_registry \<and>
   receive_parse (sync_report ''a8bb50112233'' True) = Some (''a8bb50112233'', False, 1) \<and>
   fst (receive_resolve 100 ''a8bb50112233'' empty_registry) = 0 \<and>
   status (Devices (snd (receive_resolve 100 ''a8bb50112233'' empty_registry)) ! nat 0) = 0 \<and>
   pending (Devices (snd (receive_resolve 100 ''a8bb50112233'' empty_registry)) ! nat 0) = 0 \<and>
   status (Devices (housewiz_device_receive 100 (sync_report ''a8bb50112233'' True)
             empty_registry) ! nat 0) = 1 \<and>
   commanded (Devices (housewiz_device_receive 100 (sync_report ''a8bb50112233'' True)
             empty_registry) ! nat 0) = 1 \<and>
   emitted empty_registry
           (housewiz_device_receive 100 (sync_report ''a8bb50112233'' True) empty_registry)
     = [''ADDED'', ''CHANGED'']"
proof -
  let ?s1 = "snd (receive_resolve 100 ''a8bb50112233'' empty_registry)"
  have a: "wf_registry empty_registry"
    by code_simp
  have b: "receive_parse (sync_report ''a8bb50112233'' True) = Some (''a8bb50112233'', False, 1)"
    by code_simp
  have c: "fst (receive_resolve 100 ''a8bb50112233'' empty_registry) = 0"
    by code_simp
  then have c': "receive_resolve 100 ''a8bb50112233'' empty_registry = (0, ?s1)"
    by (metis prod.collapse)
  have d: "(0::int) \<le> 0"
    by simp
  have e: "status (Devices ?s1 ! nat 0) \<noteq> 1"
    by code_simp
  have f: "status (Devices ?s1 ! nat 0) = 0"
    and g: "pending (Devices ?s1 ! nat 0) = 0"
    and h: "detected_note (Devices ?s1 ! nat 0) = []"
    and i: "created_note ''a8bb50112233'' empty_registry = [''ADDED'']"
    by code_simp+
  show ?thesis
    using a b c f g h i report_change [OF a b c' d e] by simp
qed

text \<open>
  The claim as stated fails while a command is pending: after \<open>set (0, on, 0)\<close> on the
  lamp that is on, a report \<open>off\<close> changes the status and leaves the commanded flag on,
  with no event.
\<close>

theorem report_change_counterexample:
  "status (Devices (after_set 100 0 1 0 (one_device lamp 100)) ! 0) = 1 \<and>
   commanded (Devices (after_set 100 0 1 0 (one_device lamp 100)) ! 0) = 1 \<and>
   pending (Devices (after_set 100 0 1 0 (one_device lamp 100)) ! 0) = 105 \<and>
   receive_parse (sync_report ''a8bb50112233'' False) = Some (''a8bb50112233'', False, 0) \<and>
   commanded (Devices (housewiz_device_receive 101 (sync_report ''a8bb50112233'' False)
                 (after_set 100 0 1 0 (one_device lamp 100))) ! 0) = 1 \<and>
   status (Devices (housewiz_device_receive 101 (sync_report ''a8bb50112233'' False)
                 (after_set 100 0 1 0 (one_device lamp 100))) ! 0) = 0 \<and>
   emitted (after_set 100 0 1 0 (one_device lamp 100))
           (housewiz_device_receive 101 (sync_report ''a8bb50112233'' False)
                 (after_set 100 0 1 0 (one_device lamp 100))) = []"
  by code_simp

section \<open>Confirmation absorption\<close>

text \<open>
  Claim C6, as amended. While a command is pending on the record a \<^verbatim>\<open>syncPilot\<close>
  report resolves to, a report whose state is the commanded state emits neither
  \<open>CHANGED\<close> nor \<open>OPERATED\<close>. If the state differs from the recorded status, the
  pending time is cleared, the status takes the state and \<open>CONFIRMED\<close> is emitted; if
  it equals the recorded status, the report changes nothing in the record but the
  detection time and the endpoint: the pending time, the flags and the deadline stay.
\<close>

theorem confirmation_absorption:
  assumes "wf_registry s"
    and "receive_parse dg = Some (mac, False, st)"
    and "receive_resolve now mac s = (device, s1)"
    and "0 \<le> device"
    and "pending (Devices s1 ! nat device) \<noteq> 0"
    and "st = commanded (Devices s1 ! nat device)"
  shows "''CHANGED'' \<notin> set (emitted s (housewiz_device_receive now dg s)) \<and>
     ''OPERATED'' \<notin> set (emitted s (housewiz_device_receive now dg s)) \<and>
     (if status (Devices s1 ! nat device) \<noteq> st then
        Devices (housewiz_device_receive now dg s) ! nat device =
          (Devices s1 ! nat device)\<lparr>detected := now, pending := 0, status := st,
             ipaddress := (sender dg)\<lparr>sin_port := WizDevicePort\<rparr>\<rparr> \<and>
        emitted s (housewiz_device_receive now dg s) =
          created_note mac s @ detected_note (Devices s1 ! nat device) @ [''CONFIRMED'']
      else
        Devices (housewiz_device_receive now dg s) ! nat device =
          (Devices s1 ! nat device)\<lparr>detected := now,
             ipaddress := (sender dg)\<lparr>sin_port := WizDevicePort\<rparr>\<rparr> \<and>
        emitted s (housewiz_device_receive now dg s) =
          created_note mac s @ detected_note (Devices s1 ! nat device))"
  using assms(5,6)
  unfolding receive_resolved [OF assms(1,2,3,4)] fst_receive_device events_receive_device
  by (simp add: receive_manual_def receive_change_def detected_note_def created_note_def)

text \<open>
  The theorem at the lamp that is off, after \<open>set (0, on, 0)\<close>: a report \<open>on\<close>.
\<close>

theorem confirmation_absorption_witness:
  "wf_registry (after_set 100 0 1 0 (one_device lamp_off 100)) \<and>
   receive_parse (sync_report ''a8bb50112233'' True) = Some (''a8bb50112233'', False, 1) \<and>
   fst (receive_resolve 101 ''a8bb50112233'' (after_set 100 0 1 0 (one_device lamp_off 100))) = 0 \<and>
   snd (receive_resolve 101 ''a8bb50112233'' (after_set 100 0 1 0 (one_device lamp_off 100)))
     = after_set 100 0 1 0 (one_device lamp_off 100) \<and>
   pending (Devices (after_set 100 0 1 0 (one_device lamp_off 100)) ! nat 0) = 105 \<and>
   commanded (Devices (after_set 100 0 1 0 (one_device lamp_off 100)) ! nat 0) = 1 \<and>
   status (Devices (after_set 100 0 1 0 (one_device lamp_off 100)) ! nat 0) = 0 \<and>
   pending (Devices (housewiz_device_receive 101 (sync_report ''a8bb50112233'' True)
             (after_set 100 0 1 0 (one_device lamp_off 100))) ! nat 0) = 0 \<and>
   status (Devices (housewiz_device_receive 101 (sync_report ''a8bb50112233'' True)
             (after_set 100 0 1 0 (one_device lamp_off 100))) ! nat 0) = 1 \<and>
   emitted (after_set 100 0 1 0 (one_device lamp_off 100))
           (housewiz_device_receive 101 (sync_report ''a8bb50112233'' True)
             (after_set 100 0 1 0 (one_device lamp_off 100)))
     = [''CONFIRMED'']"
proof -
  let ?s = "after_set 100 0 1 0 (one_device lamp_off 100)"
  have a: "wf_registry ?s"
    by code_simp
  have b: "receive_parse (sync_report ''a8bb50112233'' True) = Some (''a8bb50112233'', False, 1)"
    by code_simp
  have c: "fst (receive_resolve 101 ''a8bb50112233'' ?s) = 0"
    and c2: "snd (receive_resolve 101 ''a8bb50112233'' ?s) = ?s"
    by code_simp+
  have c': "receive_resolve 101 ''a8bb50112233'' ?s = (0, ?s)"
    using c c2 by (metis prod.collapse)
  have d: "(0::int) \<le> 0"
    by simp
  have e: "pending (Devices ?s ! nat 0) \<noteq> 0"
    by code_simp
  have f: "1 = commanded (Devices ?s ! nat 0)"
    by code_simp
  have g: "pending (Devices ?s ! nat 0) = 105"
    and h: "status (Devices ?s ! nat 0) = 0"
    and i: "detected_note (Devices ?s ! nat 0) = []"
    and j: "created_note ''a8bb50112233'' ?s = []"
    by code_simp+
  show ?thesis
    using a b c c2 g h i j f [symmetric] confirmation_absorption [OF a b c' d e f] by simp
qed

text \<open>
  The claim as stated fails when the state reported equals the status too: after
  \<open>set (0, on, 0)\<close> on the lamp that is on, a report \<open>on\<close> leaves the pending time at 105.
\<close>

theorem confirmation_absorption_counterexample:
  "status (Devices (after_set 100 0 1 0 (one_device lamp 100)) ! 0) = 1 \<and>
   commanded (Devices (after_set 100 0 1 0 (one_device lamp 100)) ! 0) = 1 \<and>
   pending (Devices (after_set 100 0 1 0 (one_device lamp 100)) ! 0) = 105 \<and>
   receive_parse (sync_report ''a8bb50112233'' True) = Some (''a8bb50112233'', False, 1) \<and>
   pending (Devices (housewiz_device_receive 101 (sync_report ''a8bb50112233'' True)
                 (after_set 100 0 1 0 (one_device lamp 100))) ! 0) = 105"
  by code_simp

section \<open>The destination of the datagrams\<close>

lemma to_command_port_append:
  "to_command_port i (ps @ qs) \<longleftrightarrow> to_command_port i ps \<and> to_command_port i qs"
  by (auto simp: to_command_port_def)

lemma set_endpoint:
  assumes "endpoint_inv i s"
  shows "endpoint_inv i (after_set now device state pulse s) \<and>
         (\<exists>ps. sent (after_set now device state pulse s) = sent s @ ps \<and> to_command_port i ps)"
proof (cases "device < 0 \<or> device > int (DevicesCount s) \<or> length (Devices s) \<le> nat device")
  case True
  then have "after_set now device state pulse s = s"
    by (auto simp: after_set_def housewiz_device_set_def)
  then show ?thesis
    using assms by (simp add: to_command_port_def)
next
  case False
  let ?j = "nat device"
  let ?d = "(Devices s ! ?j)\<lparr>deadline := (if pulse > 0 then now + pulse else 0),
                               commanded := state, pending := now + 5\<rparr>"
  let ?out = "if detected ?d \<noteq> 0 then [control_packet ?j ?d state] else []"
  have dev: "Devices (after_set now device state pulse s) = (Devices s)[?j := ?d]"
    and cnt: "DevicesCount (after_set now device state pulse s) = DevicesCount s"
    and snt: "sent (after_set now device state pulse s) = sent s @ ?out"
    using False by (simp_all add: after_set_def housewiz_device_set_def Let_def)
  have len: "i < length (Devices s)"
    using assms by (simp add: endpoint_inv_def)
  have port: "sin_port (ipaddress (Devices s ! i)) = WizDevicePort"
    using assms by (simp add: endpoint_inv_def)
  have "sin_port (ipaddress ((Devices s)[?j := ?d] ! i)) = WizDevicePort"
    using len port by (cases "?j = i") simp_all
  then have inv: "endpoint_inv i (after_set now device state pulse s)"
    using assms set_wf [of s now device state pulse] dev cnt by (simp add: endpoint_inv_def)
  have "to_command_port i ?out"
    using port by (auto simp: to_command_port_def control_packet_def)
  then show ?thesis
    using inv snt by blast
qed

lemma periodic_device_packets:
  "ipaddress (fst (periodic_device now j nets d)) = ipaddress d \<and>
   (\<forall>pk \<in> set (fst (snd (periodic_device now j nets d))).
      payload_id (snd pk) = WIZ_ID_OFFSET + int j \<and> fst pk = ipaddress d)"
proof -
  let ?d1 = "fst (periodic_probe now j nets d)"
  let ?d2 = "fst (periodic_silence now ?d1)"
  let ?d3 = "fst (periodic_pulse now ?d2)"
  have a1: "ipaddress ?d1 = ipaddress d"
    by (simp add: fst_periodic_probe)
  have a2: "ipaddress ?d2 = ipaddress ?d1"
    by (simp add: fst_periodic_silence housewiz_device_reset_def)
  have a3: "ipaddress ?d3 = ipaddress ?d2"
    by (simp add: fst_periodic_pulse)
  have a4: "ipaddress (fst (periodic_mismatch now j ?d3)) = ipaddress ?d3"
    by (simp add: fst_periodic_mismatch housewiz_device_reset_def)
  have p1: "\<forall>pk \<in> set (snd (periodic_probe now j nets d)).
              payload_id (snd pk) = WIZ_ID_OFFSET + int j \<and> fst pk = ipaddress d"
    by (auto simp: periodic_probe_def sense_packets_def)
  have p4: "\<forall>pk \<in> set (fst (snd (periodic_mismatch now j ?d3))).
              payload_id (snd pk) = WIZ_ID_OFFSET + int j \<and> fst pk = ipaddress ?d3"
    by (auto simp: periodic_mismatch_def control_packet_def)
  have pk: "fst (snd (periodic_device now j nets d)) =
              snd (periodic_probe now j nets d) @ fst (snd (periodic_mismatch now j ?d3))"
    by (simp add: periodic_device_def case_prod_beta)
  show ?thesis
    unfolding pk fst_periodic_device using a1 a2 a3 a4 p1 p4 by auto
qed

lemma periodic_step_sent:
  "sent (periodic_step now j s) = sent s @ fst (snd (periodic_device now j (Networks s) (Devices s ! j)))"
  by (simp add: periodic_step_def case_prod_beta)

lemma periodic_loop_packets:
  assumes "\<forall>j \<in> set is. j < length (Devices s)"
  shows "map ipaddress (Devices (periodic_loop now is s)) = map ipaddress (Devices s) \<and>
     (\<exists>ps. sent (periodic_loop now is s) = sent s @ ps \<and>
        (\<forall>pk \<in> set ps. \<exists>j < length (Devices s).
            payload_id (snd pk) = WIZ_ID_OFFSET + int j \<and> fst pk = ipaddress (Devices s ! j)))"
  using assms
proof (induction "is" arbitrary: s)
  case Nil
  then show ?case by simp
next
  case (Cons j "is")
  let ?s1 = "periodic_step now j s"
  let ?r = "periodic_device now j (Networks s) (Devices s ! j)"
  have j: "j < length (Devices s)"
    using Cons.prems by simp
  note pd = periodic_device_packets [of now j "Networks s" "Devices s ! j"]
  have "map ipaddress ((Devices s)[j := fst ?r]) = (map ipaddress (Devices s))[j := ipaddress (Devices s ! j)]"
    using pd by (simp add: map_update)
  then have ip1: "map ipaddress (Devices ?s1) = map ipaddress (Devices s)"
    using j by (simp add: periodic_step_Devices list_update_same_conv)
  have len1: "length (Devices ?s1) = length (Devices s)"
    by (simp add: periodic_step_Devices)
  have nth1: "ipaddress (Devices ?s1 ! k) = ipaddress (Devices s ! k)" if "k < length (Devices s)" for k
    using arg_cong [OF ip1, of "\<lambda>xs. xs ! k"] that len1 by simp
  have rest: "\<forall>k \<in> set is. k < length (Devices ?s1)"
    using Cons.prems len1 by simp
  from Cons.IH [OF rest] obtain ps where
    ip2: "map ipaddress (Devices (periodic_loop now is ?s1)) = map ipaddress (Devices ?s1)"
    and s2: "sent (periodic_loop now is ?s1) = sent ?s1 @ ps"
    and p2: "\<forall>pk \<in> set ps. \<exists>k < length (Devices ?s1).
               payload_id (snd pk) = WIZ_ID_OFFSET + int k \<and> fst pk = ipaddress (Devices ?s1 ! k)"
    by blast
  have p2': "\<forall>pk \<in> set ps. \<exists>k < length (Devices s).
               payload_id (snd pk) = WIZ_ID_OFFSET + int k \<and> fst pk = ipaddress (Devices s ! k)"
    using p2 nth1 len1 by metis
  have p1: "\<forall>pk \<in> set (fst (snd ?r)). \<exists>k < length (Devices s).
               payload_id (snd pk) = WIZ_ID_OFFSET + int k \<and> fst pk = ipaddress (Devices s ! k)"
    using pd j by blast
  have "sent (periodic_loop now (j # is) s) = sent s @ (fst (snd ?r) @ ps)"
    using s2 by (simp add: periodic_step_sent)
  moreover have "\<forall>pk \<in> set (fst (snd ?r) @ ps). \<exists>k < length (Devices s).
               payload_id (snd pk) = WIZ_ID_OFFSET + int k \<and> fst pk = ipaddress (Devices s ! k)"
    using p1 p2' by auto
  moreover have "map ipaddress (Devices (periodic_loop now (j # is) s)) = map ipaddress (Devices s)"
    using ip2 ip1 by simp
  ultimately show ?case by blast
qed

lemma periodic_endpoint:
  assumes "endpoint_inv i s"
  shows "endpoint_inv i (housewiz_device_periodic now ifs s) \<and>
         (\<exists>ps. sent (housewiz_device_periodic now ifs s) = sent s @ ps \<and> to_command_port i ps)"
proof -
  let ?s1 = "if now \<ge> LastSense s + 60
             then (housewiz_device_sense WizBroadcast 1 (s\<lparr>Networks := ifs\<rparr>))\<lparr>LastSense := now\<rparr>
             else s"
  let ?s' = "housewiz_device_periodic now ifs s"
  have wf: "wf_registry s" and len: "i < length (Devices s)"
    and port: "sin_port (ipaddress (Devices s ! i)) = WizDevicePort"
    using assms by (simp_all add: endpoint_inv_def)
  have dev1: "Devices ?s1 = Devices s" and cnt1: "DevicesCount ?s1 = DevicesCount s"
    by (simp_all add: housewiz_device_sense_def)
  obtain qs where s1: "sent ?s1 = sent s @ qs" and q: "to_command_port i qs"
  proof
    show "sent ?s1 = sent s @ (if now \<ge> LastSense s + 60 then sense_packets ifs WizBroadcast 1 else [])"
      by (simp add: housewiz_device_sense_def)
    show "to_command_port i (if now \<ge> LastSense s + 60 then sense_packets ifs WizBroadcast 1 else [])"
      by (auto simp: to_command_port_def sense_packets_def WIZ_ID_OFFSET_def)
  qed
  have ip: "map ipaddress (Devices ?s') = map ipaddress (Devices s) \<and>
        (\<exists>ps. sent ?s' = sent ?s1 @ ps \<and>
           (\<forall>pk \<in> set ps. \<exists>j < length (Devices s).
               payload_id (snd pk) = WIZ_ID_OFFSET + int j \<and> fst pk = ipaddress (Devices s ! j)))"
  proof (cases "now < LastRetry ?s1 + 5")
    case True
    then have "?s' = ?s1"
      by (simp add: housewiz_device_periodic_def Let_def)
    then show ?thesis using dev1 by simp
  next
    case False
    let ?s2 = "?s1\<lparr>LastRetry := now\<rparr>"
    have eq: "?s' = periodic_loop now [0..<DevicesCount ?s2] ?s2"
      using False by (simp add: housewiz_device_periodic_def Let_def)
    have dev2: "Devices ?s2 = Devices s" and snt2: "sent ?s2 = sent ?s1"
      using dev1 by simp_all
    have "\<forall>j \<in> set [0..<DevicesCount ?s2]. j < length (Devices ?s2)"
      using wf cnt1 dev2 by (simp add: wf_registry_def)
    from periodic_loop_packets [OF this, of now] show ?thesis
      unfolding eq [symmetric] dev2 snt2 .
  qed
  then obtain ps where s2: "sent ?s' = sent ?s1 @ ps"
    and p: "\<forall>pk \<in> set ps. \<exists>j < length (Devices s).
               payload_id (snd pk) = WIZ_ID_OFFSET + int j \<and> fst pk = ipaddress (Devices s ! j)"
    and ipm: "map ipaddress (Devices ?s') = map ipaddress (Devices s)"
    by blast
  have "ipaddress (Devices ?s' ! i) = ipaddress (Devices s ! i)"
    using arg_cong [OF ipm, of "\<lambda>xs. xs ! i"] len by simp
  then have inv: "endpoint_inv i ?s'"
    using len port periodic_wf [OF wf, of now ifs] by (simp add: endpoint_inv_def)
  have "to_command_port i ps"
    unfolding to_command_port_def
  proof (intro ballI impI)
    fix pk assume "pk \<in> set ps" and ident: "payload_id (snd pk) = WIZ_ID_OFFSET + int i"
    then obtain j where "payload_id (snd pk) = WIZ_ID_OFFSET + int j" "fst pk = ipaddress (Devices s ! j)"
      using p by blast
    then show "sin_port (fst pk) = WizDevicePort"
      using ident port by simp
  qed
  then have "to_command_port i (qs @ ps)"
    using q by (simp add: to_command_port_append)
  moreover have "sent ?s' = sent s @ (qs @ ps)"
    using s1 s2 by simp
  ultimately show ?thesis
    using inv by blast
qed

lemma resolve_ipaddress:
  assumes "i < length (Devices s)"
  shows "ipaddress (Devices (snd (receive_resolve now mac s)) ! i) = ipaddress (Devices s ! i)"
    and "length (Devices (snd (receive_resolve now mac s))) = length (Devices s)"
proof -
  show "ipaddress (Devices (snd (receive_resolve now mac s)) ! i) = ipaddress (Devices s ! i)"
    using assms
    by (cases "i = DevicesCount s") (simp_all add: receive_resolve_def Let_def)
  show "length (Devices (snd (receive_resolve now mac s))) = length (Devices s)"
    by (simp add: receive_resolve_def Let_def)
qed

lemma resolve_negative:
  "fst (receive_resolve now mac s) < 0 \<Longrightarrow> snd (receive_resolve now mac s) = s"
  by (auto simp: receive_resolve_def Let_def split: if_splits)

lemma receive_device_packets:
  "ipaddress (fst (receive_device now a mac manual st j d)) = a\<lparr>sin_port := WizDevicePort\<rparr> \<and>
   (\<forall>pk \<in> set (fst (snd (receive_device now a mac manual st j d))).
      payload_id (snd pk) = WIZ_ID_OFFSET + int j \<and> fst pk = ipaddress d)"
  by (simp add: receive_device_def receive_detect_def receive_manual_def control_packet_def
                case_prod_beta)

lemma receive_endpoint:
  assumes "endpoint_inv i s"
  shows "endpoint_inv i (housewiz_device_receive now dg s) \<and>
         (\<exists>ps. sent (housewiz_device_receive now dg s) = sent s @ ps \<and> to_command_port i ps)"
proof (cases "receive_parse dg")
  case None
  then have "housewiz_device_receive now dg s = s"
    by (simp add: housewiz_device_receive_def)
  then show ?thesis
    using assms by (simp add: to_command_port_def)
next
  case (Some r)
  obtain mac manual st where parse: "receive_parse dg = Some (mac, manual, st)"
    using Some by (cases r) auto
  let ?device = "fst (receive_resolve now mac s)"
  let ?s1 = "snd (receive_resolve now mac s)"
  let ?s' = "housewiz_device_receive now dg s"
  have wf: "wf_registry s" and i: "i < length (Devices s)"
    and port: "sin_port (ipaddress (Devices s ! i)) = WizDevicePort"
    using assms by (simp_all add: endpoint_inv_def)
  have res: "receive_resolve now mac s = (?device, ?s1)"
    by simp
  show ?thesis
  proof (cases "0 \<le> ?device")
    case True
    let ?j = "nat ?device"
    let ?r = "receive_device now (sender dg) mac manual st ?j (Devices ?s1 ! ?j)"
    have eq: "?s' = ?s1\<lparr>Devices := (Devices ?s1)[?j := fst ?r],
                        sent := sent ?s1 @ fst (snd ?r), events := events ?s1 @ snd (snd ?r)\<rparr>"
      using parse True by (simp add: housewiz_device_receive_def case_prod_beta)
    have same: "ipaddress (Devices ?s1 ! i) = ipaddress (Devices s ! i)"
      and len: "i < length (Devices ?s1)"
      using resolve_ipaddress [OF i, of now mac] i by simp_all
    note pk = receive_device_packets [of now "sender dg" mac manual st ?j "Devices ?s1 ! ?j"]
    have "sin_port (ipaddress ((Devices ?s1)[?j := fst ?r] ! i)) = WizDevicePort"
      using len pk same port by (cases "?j = i") simp_all
    then have inv: "endpoint_inv i ?s'"
      using receive_wf [OF wf, of now dg] len by (simp add: endpoint_inv_def eq)
    have "to_command_port i (fst (snd ?r))"
      unfolding to_command_port_def
    proof (intro ballI impI)
      fix p assume "p \<in> set (fst (snd ?r))" and ident: "payload_id (snd p) = WIZ_ID_OFFSET + int i"
      then have id2: "payload_id (snd p) = WIZ_ID_OFFSET + int ?j"
        and dest: "fst p = ipaddress (Devices ?s1 ! ?j)"
        using pk by simp_all
      have "int ?j = int i"
        using ident id2 by simp
      then have "?j = i"
        by (simp only: of_nat_eq_iff)
      then show "sin_port (fst p) = WizDevicePort"
        using dest same port by simp
    qed
    moreover have "sent ?s' = sent s @ fst (snd ?r)"
      using resolve_events(2) [OF res True] by (simp add: eq)
    ultimately show ?thesis
      using inv by blast
  next
    case False
    then have "?s1 = s"
      by (intro resolve_negative) simp
    then have "?s' = s"
      using parse False by (simp add: housewiz_device_receive_def case_prod_beta)
    then show ?thesis
      using assms by (simp add: to_command_port_def)
  qed
qed

lemma refresh_failed_endpoint:
  assumes "endpoint_inv i s" and "0 < config_size cfg" and "config_devices cfg = None"
  shows "endpoint_inv i (snd (housewiz_device_refresh reason cfg alloc_ok s)) \<and>
         sent (snd (housewiz_device_refresh reason cfg alloc_ok s)) = sent s"
proof -
  let ?c = "DevicesCount s"
  let ?ds = "map clear_device (take ?c (Devices s)) @ drop ?c (Devices s)"
  have wf: "wf_registry s" and i: "i < length (Devices s)"
    and port: "sin_port (ipaddress (Devices s ! i)) = WizDevicePort"
    using assms(1) by (simp_all add: endpoint_inv_def)
  have c: "?c \<le> length (Devices s)"
    using wf by (simp add: wf_registry_def)
  have eq: "snd (housewiz_device_refresh reason cfg alloc_ok s) =
      s\<lparr>events := events s @ [Event ''CONFIG'' ''wiz'' ''ACTIVATING'' ''%s'' [S reason]],
        Devices := ?ds, DevicesCount := 0\<rparr>"
    using assms(2,3) by (simp add: housewiz_device_refresh_def Let_def)
  have "ipaddress (?ds ! i) = ipaddress (Devices s ! i)"
  proof (cases "i < ?c")
    case True
    then show ?thesis
      using c i by (simp add: nth_append clear_device_def)
  next
    case False
    then show ?thesis
      using c i by (simp add: nth_append min_def)
  qed
  then show ?thesis
    using wf i port by (simp add: eq endpoint_inv_def wf_registry_def)
qed

lemma operation_endpoint:
  assumes "endpoint_inv i s" and "keeps_array x"
  shows "endpoint_inv i (apply_operation x s) \<and>
         (\<exists>ps. sent (apply_operation x s) = sent s @ ps \<and> to_command_port i ps)"
proof (cases x)
  case (Command now device state pulse)
  then show ?thesis using set_endpoint [OF assms(1)] by simp
next
  case (Report now dg)
  then show ?thesis using receive_endpoint [OF assms(1)] by simp
next
  case (Tick now ifs)
  then show ?thesis using periodic_endpoint [OF assms(1)] by simp
next
  case (Reload reason cfg alloc_ok)
  then have "endpoint_inv i (apply_operation x s) \<and> sent (apply_operation x s) = sent s @ []"
    using assms(2) refresh_failed_endpoint [OF assms(1), of cfg reason alloc_ok] by simp
  moreover have "to_command_port i []"
    by (simp add: to_command_port_def)
  ultimately show ?thesis by blast
qed

lemma run_endpoint:
  assumes "endpoint_inv i s" and "list_all keeps_array ops"
  shows "endpoint_inv i (run_operations ops s) \<and>
         (\<exists>ps. sent (run_operations ops s) = sent s @ ps \<and> to_command_port i ps)"
  using assms
proof (induction ops arbitrary: s)
  case Nil
  then show ?case by (simp add: to_command_port_def)
next
  case (Cons x ops)
  from operation_endpoint [OF Cons.prems(1), of x] Cons.prems(2) obtain ps where
    inv1: "endpoint_inv i (apply_operation x s)"
    and s1: "sent (apply_operation x s) = sent s @ ps" and p1: "to_command_port i ps"
    by auto
  from Cons.IH [OF inv1] Cons.prems(2) obtain qs where
    inv2: "endpoint_inv i (run_operations ops (apply_operation x s))"
    and s2: "sent (run_operations ops (apply_operation x s)) = sent (apply_operation x s) @ qs"
    and p2: "to_command_port i qs"
    by auto
  have "sent (run_operations (x # ops) s) = sent s @ (ps @ qs)"
    using s1 s2 by simp
  moreover have "to_command_port i (ps @ qs)"
    using p1 p2 by (simp add: to_command_port_append)
  ultimately show ?case
    using inv2 by auto
qed

section \<open>The endpoint of a device\<close>

text \<open>
  Claim C10, as amended. When a \<^verbatim>\<open>firstBeat\<close> or \<^verbatim>\<open>syncPilot\<close> datagram passes the
  checks and resolves to a record (found or created), the endpoint stored in that
  record afterwards is the sender's address with the port replaced by 38899, whatever
  the sender's source port. Through every later run of commands, reports, calls of
  the scheduler and reloads that stop before the allocation (no reload replaces the
  array of records), the port of the record's endpoint stays 38899 and every datagram
  sent for that record (those that carry its identifier: \<^verbatim>\<open>setPilot\<close> commands,
  retries and acknowledgements, and liveness probes) goes to port 38899.
\<close>

theorem endpoint_refresh:
  assumes "wf_registry s"
    and "receive_parse dg = Some (mac, manual, st)"
    and "receive_resolve now mac s = (device, s1)"
    and "0 \<le> device"
    and "list_all keeps_array ops"
  shows "ipaddress (Devices (housewiz_device_receive now dg s) ! nat device)
           = (sender dg)\<lparr>sin_port := 38899\<rparr> \<and>
         sin_port (ipaddress (Devices (run_operations ops (housewiz_device_receive now dg s))
                                ! nat device)) = 38899 \<and>
         (\<forall>pk \<in> set (drop (length (sent (housewiz_device_receive now dg s)))
                         (sent (run_operations ops (housewiz_device_receive now dg s)))).
            payload_id (snd pk) = WIZ_ID_OFFSET + device \<longrightarrow> sin_port (fst pk) = 38899)"
proof -
  let ?s' = "housewiz_device_receive now dg s"
  let ?i = "nat device"
  have stored: "ipaddress (Devices ?s' ! ?i) = (sender dg)\<lparr>sin_port := WizDevicePort\<rparr>"
    unfolding receive_resolved(1) [OF assms(1,2,3,4)] by (simp add: fst_receive_device)
  have "?i < length (Devices s1)"
    using resolve_shape [OF assms(1,3,4)] by (simp add: wf_registry_def)
  moreover have "length (Devices ?s') = length (Devices s1)"
    using assms(2,3,4) by (simp add: housewiz_device_receive_def case_prod_beta)
  ultimately have inv: "endpoint_inv ?i ?s'"
    using receive_wf [OF assms(1), of now dg] stored by (simp add: endpoint_inv_def)
  from run_endpoint [OF inv assms(5)] obtain ps where
    inv2: "endpoint_inv ?i (run_operations ops ?s')"
    and snt: "sent (run_operations ops ?s') = sent ?s' @ ps"
    and ps: "to_command_port ?i ps"
    by blast
  have "\<forall>pk \<in> set ps. payload_id (snd pk) = WIZ_ID_OFFSET + device \<longrightarrow> sin_port (fst pk) = WizDevicePort"
    using ps assms(4) by (simp add: to_command_port_def)
  then show ?thesis
    using stored inv2 snt by (simp add: endpoint_inv_def WizDevicePort_def)
qed

text \<open>
  The theorem at a report \<open>off\<close> of a new bulb that sends from port 49152, followed by a
  command \<open>on\<close> at 101 and the sweep at 103, which retries it: the command and the
  retry go to port 38899.
\<close>

theorem endpoint_refresh_witness:
  "wf_registry empty_registry \<and>
   receive_parse (sync_report ''a8bb50112233'' False) = Some (''a8bb50112233'', False, 0) \<and>
   fst (receive_resolve 100 ''a8bb50112233'' empty_registry) = 0 \<and>
   list_all keeps_array [Command 101 0 1 0, Tick 103 []] \<and>
   sin_port (sender (sync_report ''a8bb50112233'' False)) = 49152 \<and>
   ipaddress (Devices (housewiz_device_receive 100 (sync_report ''a8bb50112233'' False)
                empty_registry) ! nat 0)
     = (sender (sync_report ''a8bb50112233'' False))\<lparr>sin_port := 38899\<rparr> \<and>
   drop (length (sent (housewiz_device_receive 100 (sync_report ''a8bb50112233'' False) empty_registry)))
        (sent (run_operations [Command 101 0 1 0, Tick 103 []]
                 (housewiz_device_receive 100 (sync_report ''a8bb50112233'' False) empty_registry)))
     = [(bulb_addr\<lparr>sin_port := 38899\<rparr>, SetPilot 12000 True),
        (bulb_addr\<lparr>sin_port := 38899\<rparr>, SetPilot 12000 True)]"
proof -
  have a: "wf_registry empty_registry"
    by code_simp
  have b: "receive_parse (sync_report ''a8bb50112233'' False) = Some (''a8bb50112233'', False, 0)"
    by code_simp
  have c: "fst (receive_resolve 100 ''a8bb50112233'' empty_registry) = 0"
    by code_simp
  then have c': "receive_resolve 100 ''a8bb50112233'' empty_registry
                  = (0, snd (receive_resolve 100 ''a8bb50112233'' empty_registry))"
    by (metis prod.collapse)
  have d: "(0::int) \<le> 0"
    by simp
  have e: "list_all keeps_array [Command 101 0 1 0, Tick 103 []]"
    by simp
  have f: "sin_port (sender (sync_report ''a8bb50112233'' False)) = 49152"
    by code_simp
  have g: "drop (length (sent (housewiz_device_receive 100 (sync_report ''a8bb50112233'' False) empty_registry)))
        (sent (run_operations [Command 101 0 1 0, Tick 103 []]
                 (housewiz_device_receive 100 (sync_report ''a8bb50112233'' False) empty_registry)))
     = [(bulb_addr\<lparr>sin_port := 38899\<rparr>, SetPilot 12000 True),
        (bulb_addr\<lparr>sin_port := 38899\<rparr>, SetPilot 12000 True)]"
    by code_simp
  show ?thesis
    using a b c e f g endpoint_refresh [OF a b c' d e] by simp
qed

text \<open>
  The claim as stated fails across a reload: the lamp reports from 192.168.1.50 and
  its endpoint is stored with port 38899; the registry is reloaded, which loads the
  records into a zeroed array; the acknowledgement of the next \<^verbatim>\<open>firstBeat\<close> of the
  lamp is sent to the all-zero address, port 0.
\<close>

theorem endpoint_refresh_counterexample:
  "ipaddress (Devices (housewiz_device_receive 100 (sync_report ''a8bb50112233'' True)
                lamp_registry) ! 0) = bulb_addr\<lparr>sin_port := 38899\<rparr> \<and>
   drop (length (sent (run_operations
           [Report 100 (sync_report ''a8bb50112233'' True), Reload ''RELOAD'' lamp_config True]
           lamp_registry)))
        (sent (run_operations
           [Report 100 (sync_report ''a8bb50112233'' True), Reload ''RELOAD'' lamp_config True,
            Report 200 (first_beat ''a8bb50112233'')]
           lamp_registry))
     = [(zero_addr, SetPilot 12000 True)] \<and>
   sin_port zero_addr = 0"
  by code_simp

section \<open>One record for each MAC address\<close>

text \<open>
  Claim C9, as amended. For a MAC address \<open>m\<close> of at most 15 characters and a run of
  datagrams that all carry \<open>m\<close> up to case, on a well-formed registry: at most one
  record is created; if \<open>m\<close> resolves to a record before the run, none is created and
  \<open>m\<close> resolves to the same record after it; and if a record is created, \<open>m\<close> resolves
  to it (the first free index) after the run.
\<close>

theorem one_record_per_mac:
  assumes "wf_registry s" and "length m \<le> 15" and "\<forall>x \<in> set run. carries m (snd x)"
  shows "DevicesCount (receive_run run s) \<le> DevicesCount s + 1 \<and>
     (0 \<le> housewiz_device_mac_search m s \<longrightarrow>
        DevicesCount (receive_run run s) = DevicesCount s \<and>
        housewiz_device_mac_search m (receive_run run s) = housewiz_device_mac_search m s) \<and>
     (DevicesCount s < DevicesCount (receive_run run s) \<longrightarrow>
        housewiz_device_mac_search m (receive_run run s) = int (DevicesCount s))"
  using assms
proof (induction run arbitrary: s)
  case Nil
  then show ?case by simp
next
  case (Cons x run)
  obtain t dg where x: "x = (t, dg)" by (cases x)
  let ?s1 = "housewiz_device_receive t dg s"
  have c: "carries m dg" and rest: "\<forall>y \<in> set run. carries m (snd y)"
    using Cons.prems(3) x by simp_all
  note step = receive_step [OF Cons.prems(1) c Cons.prems(2), of t]
  then have wf1: "wf_registry ?s1" by simp
  note ih = Cons.IH [OF wf1 Cons.prems(2) rest]
  from step have "(DevicesCount ?s1 = DevicesCount s \<and>
       housewiz_device_mac_search m ?s1 = housewiz_device_mac_search m s)
      \<or> (housewiz_device_mac_search m s < 0 \<and> DevicesCount ?s1 = DevicesCount s + 1 \<and>
          housewiz_device_mac_search m ?s1 = int (DevicesCount s))"
    by simp
  then show ?case
  proof
    assume "DevicesCount ?s1 = DevicesCount s \<and>
       housewiz_device_mac_search m ?s1 = housewiz_device_mac_search m s"
    then show ?thesis using ih x by simp
  next
    assume "housewiz_device_mac_search m s < 0 \<and> DevicesCount ?s1 = DevicesCount s + 1 \<and>
          housewiz_device_mac_search m ?s1 = int (DevicesCount s)"
    then show ?thesis using ih x by simp
  qed
qed

text \<open>
  The theorem at two datagrams of a new bulb, the second in upper case.
\<close>

theorem one_record_per_mac_witness:
  "wf_registry empty_registry \<and>
   length ''a8bb50112233'' \<le> 15 \<and>
   carries ''a8bb50112233'' (sync_report ''a8bb50112233'' True) \<and>
   carries ''a8bb50112233'' (first_beat ''A8BB50112233'') \<and>
   DevicesCount (receive_run [(100, sync_report ''a8bb50112233'' True),
                              (101, first_beat ''A8BB50112233'')] empty_registry)
     \<le> DevicesCount empty_registry + 1 \<and>
   DevicesCount empty_registry
     < DevicesCount (receive_run [(100, sync_report ''a8bb50112233'' True),
                                  (101, first_beat ''A8BB50112233'')] empty_registry) \<and>
   housewiz_device_mac_search ''a8bb50112233''
       (receive_run [(100, sync_report ''a8bb50112233'' True),
                     (101, first_beat ''A8BB50112233'')] empty_registry)
     = int (DevicesCount empty_registry)"
proof -
  let ?run = "[(100, sync_report ''a8bb50112233'' True), (101, first_beat ''A8BB50112233'')]"
  have a: "wf_registry empty_registry"
    by code_simp
  have b: "length ''a8bb50112233'' \<le> 15"
    by simp
  have c1: "carries ''a8bb50112233'' (sync_report ''a8bb50112233'' True)"
    and c2: "carries ''a8bb50112233'' (first_beat ''A8BB50112233'')"
    by code_simp+
  have c: "\<forall>x \<in> set ?run. carries ''a8bb50112233'' (snd x)"
    using c1 c2 by simp
  have d: "DevicesCount empty_registry < DevicesCount (receive_run ?run empty_registry)"
    by code_simp
  show ?thesis
    using a b c1 c2 d one_record_per_mac [OF a b c] by simp
qed

text \<open>
  The claim as stated fails for a MAC address of more than 15 characters: the record
  keeps the first 15, the next datagram does not match it, and a second record is
  created.
\<close>

theorem one_record_per_mac_counterexample:
  "DevicesCount empty_registry = 0 \<and>
   DevicesCount (receive_run [(100, sync_report ''AA:BB:CC:DD:EE:FF'' True),
                              (101, sync_report ''AA:BB:CC:DD:EE:FF'' True)] empty_registry) = 2 \<and>
   map macaddress (take 2 (Devices (receive_run [(100, sync_report ''AA:BB:CC:DD:EE:FF'' True),
                              (101, sync_report ''AA:BB:CC:DD:EE:FF'' True)] empty_registry)))
     = [''AA:BB:CC:DD:EE:'', ''AA:BB:CC:DD:EE:'']"
  by code_simp

section \<open>The pulse rule under each operation\<close>

lemma list_all_update:
  assumes "list_all P xs" and "i < length xs \<Longrightarrow> P x"
  shows "list_all P (xs[i := x])"
proof (cases "i < length xs")
  case True
  have "set (xs[i := x]) \<subseteq> insert x (set xs)"
    by (rule set_update_subset_insert)
  then show ?thesis
    using assms True by (auto simp: list_all_iff)
next
  case False
  then have "xs[i := x] = xs"
    by (intro list_update_beyond) simp
  then show ?thesis using assms(1) by simp
qed

lemma pulse_ok_periodic_device:
  assumes "pulse_ok d"
  shows "pulse_ok (fst (periodic_device now i nets d))"
proof -
  have a: "pulse_ok (fst (periodic_probe now i nets d))"
    using assms by (simp add: pulse_ok_def fst_periodic_probe)
  have b: "pulse_ok (fst (periodic_silence now x))" if "pulse_ok x" for x
    using that by (simp add: pulse_ok_def fst_periodic_silence housewiz_device_reset_def)
  have c: "pulse_ok (fst (periodic_pulse now x))" if "pulse_ok x" for x
    using that by (simp add: pulse_ok_def fst_periodic_pulse)
  have e: "pulse_ok (fst (periodic_mismatch now i x))" if "pulse_ok x" for x
    using that by (simp add: pulse_ok_def fst_periodic_mismatch housewiz_device_reset_def)
  show ?thesis
    unfolding fst_periodic_device by (intro e c b a)
qed

lemma pulse_rule_step: "pulse_rule s \<Longrightarrow> pulse_rule (periodic_step now i s)"
  unfolding pulse_rule_def periodic_step_Devices
  by (rule list_all_update) (simp_all add: list_all_length pulse_ok_periodic_device)

lemma pulse_rule_loop: "pulse_rule s \<Longrightarrow> pulse_rule (periodic_loop now is s)"
  by (induction "is" arbitrary: s) (simp_all add: pulse_rule_step)

lemma pulse_rule_periodic:
  assumes "pulse_rule s"
  shows "pulse_rule (housewiz_device_periodic now ifs s)"
proof -
  have "pulse_rule s'" if "Devices s' = Devices s" for s'
    using assms that by (simp add: pulse_rule_def)
  then show ?thesis
    unfolding housewiz_device_periodic_def Let_def
    by (simp add: pulse_rule_loop housewiz_device_sense_def)
qed

lemma pulse_rule_set:
  assumes "pulse_rule s" and "state \<noteq> 0 \<or> pulse \<le> 0"
  shows "pulse_rule (after_set now device state pulse s)"
proof (cases "device < 0 \<or> device > int (DevicesCount s) \<or> length (Devices s) \<le> nat device")
  case True
  then have "after_set now device state pulse s = s"
    by (auto simp: after_set_def housewiz_device_set_def)
  then show ?thesis using assms(1) by simp
next
  case False
  then have eq: "Devices (after_set now device state pulse s) =
      (Devices s)[nat device := (Devices s ! nat device)
         \<lparr>deadline := (if pulse > 0 then now + pulse else 0), commanded := state, pending := now + 5\<rparr>]"
    by (simp add: after_set_def housewiz_device_set_def Let_def)
  show ?thesis
    unfolding pulse_rule_def eq
    using assms by (intro list_all_update) (auto simp: pulse_rule_def pulse_ok_def)
qed

lemma pulse_ok_receive_device:
  assumes "pulse_ok d" and "st \<noteq> 0 \<or> status d = 0 \<or> pending d \<noteq> 0 \<or> deadline d \<le> 0"
    and "manual \<longrightarrow> st \<noteq> 0"
  shows "pulse_ok (fst (receive_device now a mac manual st i d))"
proof (cases manual)
  case True
  then show ?thesis
    unfolding fst_receive_device
    by (simp add: pulse_ok_def receive_manual_def receive_change_def)
next
  case False
  have d1: "fst (receive_manual manual i (d\<lparr>detected := now\<rparr>)) = d\<lparr>detected := now\<rparr>"
    using False by (simp add: receive_manual_def)
  from assms(2) show ?thesis
  proof (elim disjE)
    assume "st \<noteq> 0"
    then show ?thesis
      using assms(1) False unfolding fst_receive_device d1
      by (simp add: pulse_ok_def receive_change_def)
  next
    assume "status d = 0"
    then show ?thesis
      using assms(1) False unfolding fst_receive_device d1
      by (cases "st = 0") (simp_all add: pulse_ok_def receive_change_def)
  next
    assume "pending d \<noteq> 0"
    then show ?thesis
      using assms(1) False unfolding fst_receive_device d1
      by (simp add: pulse_ok_def receive_change_def)
  next
    assume "deadline d \<le> 0"
    then show ?thesis
      using False unfolding fst_receive_device d1
      by (simp add: pulse_ok_def receive_change_def)
  qed
qed

lemma pulse_rule_resolve:
  assumes "pulse_rule s"
  shows "pulse_rule (snd (receive_resolve now mac s))"
proof (cases "housewiz_device_mac_search mac s < 0 \<and> DevicesCount s < DevicesSpace s")
  case True
  then have eq: "Devices (snd (receive_resolve now mac s)) =
      (Devices s)[DevicesCount s :=
         (Devices s ! DevicesCount s)\<lparr>name := take 31 (''wiz'' @ decimal (DevicesCount s + 1)),
            macaddress := take 15 mac, description := ''autogenerated'',
            detected := now, last_sense := 0\<rparr>]"
    by (simp add: receive_resolve_def Let_def)
  show ?thesis
    unfolding pulse_rule_def eq
    using assms by (intro list_all_update) (simp_all add: pulse_rule_def pulse_ok_def list_all_length)
next
  case False
  then have "snd (receive_resolve now mac s) = s"
    by (auto simp: receive_resolve_def Let_def)
  then show ?thesis using assms by simp
qed

lemma parse_manual:
  "receive_parse dg = Some (mac, True, st) \<Longrightarrow> st = 1"
  by (auto simp: receive_parse_def split: if_splits option.splits jvalue.splits)

lemma pulse_rule_receive:
  assumes "pulse_rule s" and "keeps_pulse_rule (Report now dg) s"
  shows "pulse_rule (housewiz_device_receive now dg s)"
proof (cases "receive_parse dg")
  case None
  then show ?thesis using assms(1) by (simp add: housewiz_device_receive_def)
next
  case (Some r)
  obtain mac manual st where r: "r = (mac, manual, st)"
    by (cases r) auto
  let ?s1 = "snd (receive_resolve now mac s)"
  let ?device = "fst (receive_resolve now mac s)"
  have rule1: "pulse_rule ?s1"
    using assms(1) by (rule pulse_rule_resolve)
  have man: "manual \<longrightarrow> st \<noteq> 0"
    using Some r parse_manual [of dg mac st] by auto
  show ?thesis
  proof (cases "0 \<le> ?device")
    case True
    let ?d = "Devices ?s1 ! nat ?device"
    have keep: "st \<noteq> 0 \<or> status ?d = 0 \<or> pending ?d \<noteq> 0 \<or> deadline ?d \<le> 0"
      using assms(2) Some r True by (auto simp: case_prod_beta)
    have eq: "Devices (housewiz_device_receive now dg s) =
        (Devices ?s1)[nat ?device :=
           fst (receive_device now (sender dg) mac manual st (nat ?device) ?d)]"
      using Some r True by (simp add: housewiz_device_receive_def case_prod_beta)
    have "pulse_ok (fst (receive_device now (sender dg) mac manual st (nat ?device) ?d))"
      if "nat ?device < length (Devices ?s1)"
    proof -
      have "pulse_ok ?d"
        using rule1 that by (simp add: pulse_rule_def list_all_length)
      then show ?thesis
        using keep man by (rule pulse_ok_receive_device)
    qed
    then show ?thesis
      unfolding pulse_rule_def eq
      using rule1 by (intro list_all_update) (simp_all add: pulse_rule_def)
  next
    case False
    then have "housewiz_device_receive now dg s = ?s1"
      using Some r by (simp add: housewiz_device_receive_def case_prod_beta)
    then show ?thesis using rule1 by simp
  qed
qed

lemma refresh_loop_pulse_ok:
  assumes "list_all pulse_ok devs"
  shows "list_all pulse_ok (refresh_loop es k devs)"
  using assms
proof (induction es arbitrary: k devs)
  case Nil
  then show ?case by simp
next
  case (Cons e es)
  have "pulse_ok (load_device e (devs ! k))" if "k < length devs"
  proof -
    have "pulse_ok (devs ! k)"
      using Cons.prems that by (simp add: list_all_length)
    then show ?thesis
      by (simp add: load_device_def housewiz_device_reset_def pulse_ok_def Let_def
               split: option.splits)
  qed
  then have "list_all pulse_ok (devs[k := load_device e (devs ! k)])"
    using Cons.prems by (intro list_all_update)
  then show ?case
    using Cons.IH by simp
qed

lemma pulse_rule_reloaded:
  assumes "fst (housewiz_device_refresh reason cfg alloc_ok s) = None"
  shows "pulse_rule (snd (housewiz_device_refresh reason cfg alloc_ok s))"
proof -
  have base: "list_all pulse_ok (replicate n zero_device)" for n
    by (simp add: list_all_iff zero_device_def pulse_ok_def)
  show ?thesis
    using assms refresh_loop_pulse_ok [OF base] base
    by (auto simp: housewiz_device_refresh_def Let_def pulse_rule_def
             split: option.splits if_splits)
qed

lemma pulse_rule_refresh:
  assumes "pulse_rule s"
  shows "pulse_rule (snd (housewiz_device_refresh reason cfg alloc_ok s))"
proof (cases "fst (housewiz_device_refresh reason cfg alloc_ok s)")
  case None
  then show ?thesis by (rule pulse_rule_reloaded)
next
  case (Some e)
  have cleared: "list_all pulse_ok (map clear_device (take n (Devices s)) @ drop n (Devices s))" for n
    using assms
    by (auto simp: pulse_rule_def list_all_iff clear_device_def pulse_ok_def
             dest: in_set_takeD in_set_dropD)
  show ?thesis
    using Some cleared
    by (auto simp: housewiz_device_refresh_def Let_def pulse_rule_def
             split: option.splits if_splits)
qed

lemma pulse_rule_operation:
  "pulse_rule s \<Longrightarrow> keeps_pulse_rule x s \<Longrightarrow> pulse_rule (apply_operation x s)"
proof (cases x)
  case (Command now device state pulse)
  assume "pulse_rule s" "keeps_pulse_rule x s"
  then show ?thesis using Command by (simp add: pulse_rule_set)
next
  case (Report now dg)
  assume "pulse_rule s" "keeps_pulse_rule x s"
  then show ?thesis using Report pulse_rule_receive [of s now dg] by simp
next
  case (Tick now ifs)
  assume "pulse_rule s" "keeps_pulse_rule x s"
  then show ?thesis using Tick by (simp add: pulse_rule_periodic)
next
  case (Reload reason cfg alloc_ok)
  assume "pulse_rule s" "keeps_pulse_rule x s"
  then show ?thesis using Reload by (simp add: pulse_rule_refresh)
qed

lemma pulse_rule_run:
  "pulse_rule s \<Longrightarrow> kept_along ops s \<Longrightarrow> pulse_rule (run_operations ops s)"
  by (induction ops arbitrary: s) (simp_all add: pulse_rule_operation)

section \<open>The pulse deadline and the commanded flag\<close>

text \<open>
  Claim C4, as amended. The rule "a pulse deadline above 0 implies commanded on" holds
  for every record of the array after a successful reload, and every run of operations
  keeps it in which no command is \<open>set (d, off, pulse)\<close> with \<open>pulse > 0\<close> and no
  \<^verbatim>\<open>syncPilot\<close> report \<open>off\<close> resolves to a record that is on, has no command pending
  and has a deadline above 0. Reloads, calls of the scheduler, \<^verbatim>\<open>firstBeat\<close> reports,
  \<^verbatim>\<open>syncPilot\<close> reports \<open>on\<close>, the other reports \<open>off\<close> and commands with \<open>state\<close> on
  or \<open>pulse \<le> 0\<close> are all allowed. The rule holds after such a run from any registry
  where it holds, and after such a run that follows a successful reload of any
  registry.
\<close>

theorem pulse_rule_kept:
  "(pulse_rule s \<and> kept_along ops s \<longrightarrow> pulse_rule (run_operations ops s)) \<and>
   (fst (housewiz_device_refresh reason cfg alloc_ok s) = None \<and>
    kept_along ops (snd (housewiz_device_refresh reason cfg alloc_ok s)) \<longrightarrow>
      pulse_rule (run_operations ops (snd (housewiz_device_refresh reason cfg alloc_ok s))))"
  by (simp add: pulse_rule_run pulse_rule_reloaded)

text \<open>
  The theorem at the lamp loaded at startup: a pulse of 10 seconds \<open>on\<close> at 100, a
  report \<open>off\<close> while the command is pending, the confirmation, a sweep at 105 and a
  \<^verbatim>\<open>firstBeat\<close>; the deadline 110 is still there with the commanded flag on.
\<close>

theorem pulse_rule_kept_witness:
  "fst (housewiz_device_refresh ''ON STARTUP'' lamp_config True startup) = None \<and>
   kept_along
     [Command 100 0 1 10, Report 101 (sync_report ''a8bb50112233'' False),
      Report 102 (sync_report ''a8bb50112233'' True), Tick 105 [],
      Report 106 (first_beat ''a8bb50112233'')]
     (snd (housewiz_device_refresh ''ON STARTUP'' lamp_config True startup)) \<and>
   pulse_rule (run_operations
     [Command 100 0 1 10, Report 101 (sync_report ''a8bb50112233'' False),
      Report 102 (sync_report ''a8bb50112233'' True), Tick 105 [],
      Report 106 (first_beat ''a8bb50112233'')]
     (snd (housewiz_device_refresh ''ON STARTUP'' lamp_config True startup))) \<and>
   deadline (Devices (run_operations
     [Command 100 0 1 10, Report 101 (sync_report ''a8bb50112233'' False),
      Report 102 (sync_report ''a8bb50112233'' True), Tick 105 [],
      Report 106 (first_beat ''a8bb50112233'')]
     (snd (housewiz_device_refresh ''ON STARTUP'' lamp_config True startup))) ! 0) = 110 \<and>
   commanded (Devices (run_operations
     [Command 100 0 1 10, Report 101 (sync_report ''a8bb50112233'' False),
      Report 102 (sync_report ''a8bb50112233'' True), Tick 105 [],
      Report 106 (first_beat ''a8bb50112233'')]
     (snd (housewiz_device_refresh ''ON STARTUP'' lamp_config True startup))) ! 0) = 1"
proof -
  let ?ops = "[Command 100 0 1 10, Report 101 (sync_report ''a8bb50112233'' False),
               Report 102 (sync_report ''a8bb50112233'' True), Tick 105 [],
               Report 106 (first_beat ''a8bb50112233'')]"
  let ?s = "snd (housewiz_device_refresh ''ON STARTUP'' lamp_config True startup)"
  have a: "kept_along ?ops ?s"
    by code_simp
  have b: "fst (housewiz_device_refresh ''ON STARTUP'' lamp_config True startup) = None"
    by code_simp
  have c: "deadline (Devices (run_operations ?ops ?s) ! 0) = 110"
    and d: "commanded (Devices (run_operations ?ops ?s) ! 0) = 1"
    by code_simp+
  show ?thesis
    using a b c d pulse_rule_kept [of startup ?ops "''ON STARTUP''" lamp_config True] by simp
qed

text \<open>
  The claim as stated fails: after a reload and \<open>set (0, off, 5)\<close> at 100 the record has
  the deadline 105 and the commanded flag off. It fails without such a command too:
  after \<open>set (0, on, 10)\<close> at 100 and its confirmation, a report \<open>off\<close> with no command
  pending turns the commanded flag off and leaves the deadline 110.
\<close>

theorem pulse_rule_counterexample:
  "map_option fst (housewiz_device_set 100 0 0 5 lamp_registry) = Some 1 \<and>
   deadline (Devices (after_set 100 0 0 5 lamp_registry) ! 0) = 105 \<and>
   commanded (Devices (after_set 100 0 0 5 lamp_registry) ! 0) = 0 \<and>
   deadline (Devices (run_operations
     [Command 100 0 1 10, Report 101 (sync_report ''a8bb50112233'' True),
      Report 102 (sync_report ''a8bb50112233'' False)] lamp_registry) ! 0) = 110 \<and>
   commanded (Devices (run_operations
     [Command 100 0 1 10, Report 101 (sync_report ''a8bb50112233'' True),
      Report 102 (sync_report ''a8bb50112233'' False)] lamp_registry) ! 0) = 0"
  by code_simp

section \<open>The index test of the accessors and of set\<close>

text \<open>
  Claim C5. The code breaks it at the index equal to the device count: on a registry
  with no device, \<open>set (0, on, 0)\<close> returns 1 and writes the commanded flag and the
  pending time into the first free record, and the failure accessor returns \<open>silent\<close>
  instead of the null default. (Indexes below 0 or above the count are rejected:
  lemmas \<open>set_rejected\<close> and \<open>accessors_rejected\<close>.)
\<close>

theorem set_index_count:
  "DevicesCount empty_registry = 0 \<and>
   map_option fst (housewiz_device_set 100 0 1 0 empty_registry) = Some 1 \<and>
   Devices (after_set 100 0 1 0 empty_registry) ! 0 = zero_device\<lparr>commanded := 1, pending := 105\<rparr> \<and>
   Devices empty_registry ! 0 = zero_device \<and>
   housewiz_device_failure 0 empty_registry = Some (Some ''silent'')"
  by code_simp

section \<open>The acknowledgement of a manual operation\<close>

text \<open>
  Claim C7. The code breaks it: the acknowledgement is sent before the endpoint of the
  record is refreshed, so it goes to the endpoint stored before (lemma
  \<open>first_beat_known\<close>). For the lamp loaded from the configuration and never heard
  before, the \<^verbatim>\<open>setPilot\<close> goes to the all-zero address and not to the sender; the
  commanded flag, the status and the pending time are as the claim says.
\<close>

theorem first_beat_ack_stale:
  "housewiz_device_mac_search ''a8bb50112233'' lamp_registry = 0 \<and>
   sent (housewiz_device_receive 100 (first_beat ''a8bb50112233'') lamp_registry)
     = [(zero_addr, SetPilot 12000 True)] \<and>
   sender (first_beat ''a8bb50112233'') = bulb_addr \<and>
   ipaddress (Devices (housewiz_device_receive 100 (first_beat ''a8bb50112233'') lamp_registry) ! 0)
     = bulb_addr\<lparr>sin_port := 38899\<rparr> \<and>
   commanded (Devices (housewiz_device_receive 100 (first_beat ''a8bb50112233'') lamp_registry) ! 0) = 1 \<and>
   status (Devices (housewiz_device_receive 100 (first_beat ''a8bb50112233'') lamp_registry) ! 0) = 1 \<and>
   pending (Devices (housewiz_device_receive 100 (first_beat ''a8bb50112233'') lamp_registry) ! 0) = 0"
  by code_simp

section \<open>The status after a reload\<close>

text \<open>
  Claim C8. The code breaks it: the records are loaded into a new zeroed array, so the
  status after a reload is off for every record (lemma \<open>refresh_status\<close>). Here the lamp
  is on before the reload and off after it, with the same MAC address.
\<close>

theorem reload_forgets_status:
  "status (Devices (housewiz_device_receive 100 (sync_report ''a8bb50112233'' True) lamp_registry) ! 0) = 1 \<and>
   macaddress (Devices (housewiz_device_receive 100 (sync_report ''a8bb50112233'' True) lamp_registry) ! 0)
     = ''a8bb50112233'' \<and>
   fst (housewiz_device_refresh ''RELOAD'' lamp_config True
          (housewiz_device_receive 100 (sync_report ''a8bb50112233'' True) lamp_registry)) = None \<and>
   macaddress (Devices (snd (housewiz_device_refresh ''RELOAD'' lamp_config True
          (housewiz_device_receive 100 (sync_report ''a8bb50112233'' True) lamp_registry))) ! 0)
     = ''a8bb50112233'' \<and>
   status (Devices (snd (housewiz_device_refresh ''RELOAD'' lamp_config True
          (housewiz_device_receive 100 (sync_report ''a8bb50112233'' True) lamp_registry))) ! 0) = 0"
  by code_simp

end
